theory Spec2Isabelle
  imports Complex_Main "HOL-Library.Log_Nat"
begin

section \<open>The platformer's simulation step (game.js)\<close>

text \<open>
  The script keeps its world in module-level objects (\<open>player\<close>, \<open>hazards\<close>, \<open>gameRunning\<close>)
  that \<open>update()\<close> mutates once per animation frame. Here the world is a record that
  \<open>update\<close> takes and returns.

  JavaScript numbers are binary64 doubles. A double is modelled by the rational it denotes,
  and an addition of the script by the exact sum rounded to the nearest double, ties to
  even (\<open>numAdd\<close>): that is where the moving hazards need it, their speed 1.2 is not a
  double and every \<open>hz.y += hz.dy\<close> rounds. The player's additions are kept exact: from the
  level data all the player's numbers are multiples of 1/2 far below \<open>2^53\<close>, which doubles
  add without rounding; the sums of the collision test are kept exact as well. Infinity
  and NaN are outside the model.
\<close>

subsection \<open>Constants\<close>

definition GAME_WIDTH :: rat where "GAME_WIDTH = 800"
definition GAME_HEIGHT :: rat where "GAME_HEIGHT = 600"
definition GRAVITY :: rat where "GRAVITY = 1 / 2"
definition MOVE_SPEED :: rat where "MOVE_SPEED = 4"
definition JUMP_SPEED :: rat where "JUMP_SPEED = 12"

subsection \<open>Double arithmetic\<close>

text \<open>Rounding to the nearest integer, a tie going to the even one.\<close>

definition roundHalfEven :: "rat \<Rightarrow> int" where
  "roundHalfEven z =
     (let f = \<lfloor>z\<rfloor>; r = z - of_int f
      in if r < 1 / 2 then f else if 1 / 2 < r then f + 1 else if even f then f else f + 1)"

text \<open>The binary exponent \<open>e\<close> of a nonzero number: \<open>2^e \<le> \<bar>v\<bar> < 2^(e+1)\<close>.\<close>

definition binexp :: "rat \<Rightarrow> int" where
  "binexp v = (if 1 \<le> \<bar>v\<bar> then bitlen \<lfloor>\<bar>v\<bar>\<rfloor> - 1 else - bitlen (\<lceil>1 / \<bar>v\<bar>\<rceil> - 1))"

text \<open>
  The distance between neighbouring doubles around \<open>v\<close>: 53 significant bits, and below
  \<open>2^-1022\<close> the fixed spacing \<open>2^-1074\<close> of the subnormal numbers.
\<close>

definition quantum :: "rat \<Rightarrow> rat" where
  "quantum v = 2 powi (max (binexp v) (- 1022) - 52)"

text \<open>
  The double nearest to \<open>v\<close>. Overflow is not modelled: the model is the script's
  arithmetic as long as the magnitudes stay below \<open>2^1023\<close>.
\<close>

definition nearestDouble :: "rat \<Rightarrow> rat" where
  "nearestDouble v =
     (if v = 0 then 0 else of_int (roundHalfEven (v / quantum v)) * quantum v)"

text \<open>The script's \<open>a + b\<close> on doubles.\<close>

definition numAdd :: "rat \<Rightarrow> rat \<Rightarrow> rat" where
  "numAdd a b = nearestDouble (a + b)"

text \<open>Half the smallest subnormal double, and the smallest normal double.\<close>

definition tiny :: rat where
  "tiny = 2 powi (- 1075)"

definition minNormal :: rat where
  "minNormal = 2 powi (- 1022)"

subsection \<open>Entities\<close>

text \<open>Every drawable object carries a position, a size and a colour.\<close>

record rect =
  x :: rat
  y :: rat
  width :: rat
  height :: rat
  color :: string

record player = rect +
  vx :: rat
  vy :: rat
  onGround :: bool
  complete :: bool

text \<open>
  A hazard may carry \<open>dy\<close>, \<open>rangeTop\<close> and \<open>rangeBottom\<close>; a static hazard omits them
  (the property is then \<open>undefined\<close> in the script, \<open>None\<close> here).
\<close>

record hazard = rect +
  dy :: "rat option"
  rangeTop :: "rat option"
  rangeBottom :: "rat option"

text \<open>
  The host timers that the step starts: \<open>resetPlayer\<close> calls \<open>setInterval\<close> for the flash
  (six alternations, every 100 ms), \<open>completeLevel\<close> calls \<open>setTimeout\<close> for the form
  (after 300 ms). The step only starts them; what they do later is outside the step.
\<close>

datatype timer = FlashInterval nat nat | ShowFormTimeout nat

record state =
  gameRunning :: bool
  player :: player
  hazards :: "hazard list"
  timers :: "timer list"

text \<open>The input state: \<open>keys[code]\<close> is \<open>undefined\<close> until the key was first touched.\<close>

type_synonym keys = "string \<rightharpoonup> bool"

definition pressed :: "keys \<Rightarrow> string \<Rightarrow> bool" where
  "pressed ks code = (ks code = Some True)"

subsection \<open>Level data\<close>

definition player0 :: player where
  "player0 = \<lparr>x = 50, y = 500, width = 40, height = 60, color = ''#FFD700'',
              vx = 0, vy = 0, onGround = False, complete = False\<rparr>"

definition ground :: rect where
  "ground = \<lparr>x = 0, y = 560, width = GAME_WIDTH, height = 40, color = ''#444444''\<rparr>"

definition goal :: rect where
  "goal = \<lparr>x = 740, y = 480, width = 40, height = 80, color = ''#4CAF50''\<rparr>"

definition staticHazard :: hazard where
  "staticHazard = \<lparr>x = 400, y = 520, width = 50, height = 50, color = ''#FF4C4C'',
                   dy = None, rangeTop = None, rangeBottom = None\<rparr>"

text \<open>
  The literal \<open>1.2\<close> of the script is the double nearest to 6/5, which is
  \<open>5404319552844595 / 2^52\<close>.
\<close>

definition movingHazard :: hazard where
  "movingHazard = \<lparr>x = 550, y = 510, width = 50, height = 50, color = ''#8A2BE2'',
                   dy = Some (5404319552844595 / 4503599627370496), rangeTop = Some 480,
                   rangeBottom = Some 540\<rparr>"

definition hazards0 :: "hazard list" where
  "hazards0 = [staticHazard, movingHazard]"

definition initial :: state where
  "initial = \<lparr>gameRunning = False, player = player0, hazards = hazards0, timers = []\<rparr>"

definition startGame :: "state \<Rightarrow> state" where
  "startGame s = s\<lparr>gameRunning := True\<rparr>"

subsection \<open>Collision test and the two transitions\<close>

definition rectIntersect :: "'a rect_scheme \<Rightarrow> 'b rect_scheme \<Rightarrow> bool" where
  "rectIntersect a b =
     (x a < x b + width b \<and>
      x a + width a > x b \<and>
      y a < y b + height b \<and>
      y a + height a > y b)"

definition resetPlayer :: "state \<Rightarrow> state" where
  "resetPlayer s =
     s\<lparr>player := (player s)\<lparr>x := 50, y := 500, vx := 0, vy := 0, onGround := False\<rparr>,
       timers := timers s @ [FlashInterval 6 100]\<rparr>"

definition completeLevel :: "state \<Rightarrow> state" where
  "completeLevel s =
     s\<lparr>player := (player s)\<lparr>complete := True\<rparr>,
       timers := timers s @ [ShowFormTimeout 300]\<rparr>"

subsection \<open>The phases of \<open>update\<close>, in the order of the script\<close>

definition horizontal :: "keys \<Rightarrow> player \<Rightarrow> player" where
  "horizontal ks p =
     (if pressed ks ''ArrowLeft'' then p\<lparr>vx := - MOVE_SPEED\<rparr>
      else if pressed ks ''ArrowRight'' then p\<lparr>vx := MOVE_SPEED\<rparr>
      else p\<lparr>vx := 0\<rparr>)"

definition jumping :: "keys \<Rightarrow> player \<Rightarrow> player" where
  "jumping ks p =
     (if pressed ks ''ArrowUp'' \<and> onGround p
      then p\<lparr>vy := - JUMP_SPEED, onGround := False\<rparr> else p)"

definition applyGravity :: "player \<Rightarrow> player" where
  "applyGravity p = p\<lparr>vy := vy p + GRAVITY\<rparr>"

definition updatePosition :: "player \<Rightarrow> player" where
  "updatePosition p = p\<lparr>x := x p + vx p, y := y p + vy p\<rparr>"

definition keepInBounds :: "player \<Rightarrow> player" where
  "keepInBounds p =
     (let p1 = (if x p < 0 then p\<lparr>x := 0\<rparr> else p)
      in if x p1 + width p1 > GAME_WIDTH then p1\<lparr>x := GAME_WIDTH - width p1\<rparr> else p1)"

definition groundCollision :: "player \<Rightarrow> player" where
  "groundCollision p =
     (if y p + height p > y ground
      then p\<lparr>y := y ground - height p, vy := 0, onGround := True\<rparr> else p)"

text \<open>The player as the ground test finds it, and after it.\<close>

definition beforeGround :: "keys \<Rightarrow> player \<Rightarrow> player" where
  "beforeGround ks p =
     keepInBounds (updatePosition (applyGravity (jumping ks (horizontal ks p))))"

definition physics :: "keys \<Rightarrow> player \<Rightarrow> player" where
  "physics ks p = groundCollision (beforeGround ks p)"

text \<open>
  The first half of the \<open>forEach\<close> callback. \<open>if (hz.dy)\<close> skips a missing and a zero
  speed; a comparison with a missing bound is false, as a comparison with \<open>undefined\<close> is.
  Both sums are double additions; the multiplication by \<open>-1\<close> is exact on doubles.
\<close>

definition moveHazard :: "hazard \<Rightarrow> hazard" where
  "moveHazard hz =
     (case dy hz of
        None \<Rightarrow> hz
      | Some d \<Rightarrow>
          if d = 0 then hz
          else let hz1 = hz\<lparr>y := numAdd (y hz) d\<rparr>
               in if (case rangeTop hz1 of None \<Rightarrow> False | Some t \<Rightarrow> y hz1 \<le> t) \<or>
                     (case rangeBottom hz1 of None \<Rightarrow> False
                      | Some b \<Rightarrow> numAdd (y hz1) (height hz1) \<ge> b)
                  then hz1\<lparr>dy := Some (d * (- 1))\<rparr> else hz1)"

text \<open>
  \<open>hazards.forEach\<close>: each hazard in turn is moved and then tested against the player as
  the player is at that moment (a reset by an earlier hazard is seen by the later ones).
\<close>

fun forEachHazard :: "hazard list \<Rightarrow> state \<Rightarrow> hazard list \<times> state" where
  "forEachHazard [] s = ([], s)"
| "forEachHazard (hz # hzs) s =
     (let hz1 = moveHazard hz;
          s1 = (if rectIntersect (player s) hz1 then resetPlayer s else s);
          (hzs1, s2) = forEachHazard hzs s1
      in (hz1 # hzs1, s2))"

definition hazardPhase :: "state \<Rightarrow> state" where
  "hazardPhase s = (let (hzs1, s1) = forEachHazard (hazards s) s in s1\<lparr>hazards := hzs1\<rparr>)"

definition goalPhase :: "state \<Rightarrow> state" where
  "goalPhase s = (if rectIntersect (player s) goal then completeLevel s else s)"

definition update :: "keys \<Rightarrow> state \<Rightarrow> state" where
  "update ks s =
     (if \<not> gameRunning s \<or> complete (player s) then s
      else goalPhase (hazardPhase (s\<lparr>player := physics ks (player s)\<rparr>)))"

text \<open>One \<open>update\<close> per frame, each frame with the keys held at that frame.\<close>

fun frames :: "keys list \<Rightarrow> state \<Rightarrow> state" where
  "frames [] s = s"
| "frames (ks # kss) s = frames kss (update ks s)"

text \<open>The same hazard after \<open>n\<close> frames in which the hazards move.\<close>

fun ticks :: "nat \<Rightarrow> hazard \<Rightarrow> hazard" where
  "ticks 0 hz = hz"
| "ticks (Suc n) hz = moveHazard (ticks n hz)"

subsection \<open>Vocabulary of the properties\<close>

text \<open>What \<open>resetPlayer\<close> makes of a player.\<close>

definition spawned :: "player \<Rightarrow> player" where
  "spawned p = p\<lparr>x := 50, y := 500, vx := 0, vy := 0, onGround := False\<rparr>"

text \<open>Some hazard, once moved, overlaps the player \<open>p\<close>.\<close>

definition hazardHit :: "player \<Rightarrow> hazard list \<Rightarrow> bool" where
  "hazardHit p hzs = list_ex (\<lambda>hz. rectIntersect p (moveHazard hz)) hzs"

text \<open>The player as the goal test of a running frame finds it.\<close>

definition atGoalTest :: "keys \<Rightarrow> state \<Rightarrow> player" where
  "atGoalTest ks s = player (hazardPhase (s\<lparr>player := physics ks (player s)\<rparr>))"

text \<open>The timers that one call of \<open>update\<close> starts.\<close>

definition startedBy :: "keys \<Rightarrow> state \<Rightarrow> timer list" where
  "startedBy ks s = drop (length (timers s)) (timers (update ks s))"

definition noKeys :: keys where
  "noKeys = Map.empty"

definition rightOnly :: keys where
  "rightOnly = [''ArrowRight'' \<mapsto> True]"

definition leftAndRight :: keys where
  "leftAndRight = [''ArrowLeft'' \<mapsto> True, ''ArrowRight'' \<mapsto> True]"

text \<open>The velocity that the keys ask for.\<close>

definition wantedVx :: "keys \<Rightarrow> rat" where
  "wantedVx ks =
     (if pressed ks ''ArrowLeft'' then - MOVE_SPEED
      else if pressed ks ''ArrowRight'' then MOVE_SPEED else 0)"


text \<open>The oscillation descriptor of a hazard, when all three properties are there.\<close>

definition oscillation :: "hazard \<Rightarrow> (rat \<times> rat \<times> rat) option" where
  "oscillation hz =
     (case dy hz of None \<Rightarrow> None | Some d \<Rightarrow>
      (case rangeTop hz of None \<Rightarrow> None | Some t \<Rightarrow>
       (case rangeBottom hz of None \<Rightarrow> None | Some b \<Rightarrow> Some (d, t, b))))"


text \<open>
  A bound on the rounding error of one addition of a hazard that is near its range:
  \<open>2^-50\<close> of the magnitudes of its descriptor.
\<close>

definition roundingSlack :: "hazard \<Rightarrow> rat" where
  "roundingSlack hz =
     (case oscillation hz of None \<Rightarrow> 0
      | Some (d, t, b) \<Rightarrow> (\<bar>t\<bar> + \<bar>b\<bar> + \<bar>height hz\<bar> + \<bar>d\<bar>) / 2 ^ 50)"


text \<open>\<open>k\<close> double additions of \<open>d\<close> to \<open>v\<close>.\<close>

fun glide :: "rat \<Rightarrow> nat \<Rightarrow> rat \<Rightarrow> rat" where
  "glide d 0 v = v"
| "glide d (Suc k) v = numAdd (glide d k v) d"

text \<open>
  A hazard at the top of a range that it fills exactly, with the speed of the level, and
  the started level with this one hazard: y = rangeTop = 118.1 and rangeBottom = 128.1 as
  doubles (\<open>4155274343691059 / 2^45\<close> and \<open>4507118064579379 / 2^45\<close>), height 10.
\<close>

definition tightHazard :: hazard where
  "tightHazard = \<lparr>x = 550, y = 4155274343691059 / 35184372088832, width = 50, height = 10,
                  color = ''#8A2BE2'', dy = Some (5404319552844595 / 4503599627370496),
                  rangeTop = Some (4155274343691059 / 35184372088832),
                  rangeBottom = Some (4507118064579379 / 35184372088832)\<rparr>"

definition tightLevel :: state where
  "tightLevel = (startGame initial)\<lparr>hazards := [tightHazard]\<rparr>"

text \<open>The level with the moving hazard put at height \<open>v\<close>, the game started.\<close>

definition levelWith :: "rat \<Rightarrow> state" where
  "levelWith v = (startGame initial)\<lparr>hazards := [staticHazard, movingHazard\<lparr>y := v\<rparr>]\<rparr>"

text \<open>The started level with the player put at \<open>(px, py)\<close>.\<close>

definition playerAt :: "rat \<Rightarrow> rat \<Rightarrow> state" where
  "playerAt px py = (startGame initial)\<lparr>player := player0\<lparr>x := px, y := py\<rparr>\<rparr>"



section \<open>Facts about the phases\<close>

subsection \<open>Rounding to the nearest double\<close>

lemma roundHalfEven_error: "\<bar>of_int (roundHalfEven z) - z\<bar> \<le> 1 / 2"
proof -
  have "of_int \<lfloor>z\<rfloor> \<le> z" "z < of_int \<lfloor>z\<rfloor> + 1"
    by linarith+
  then show ?thesis
    by (auto simp: roundHalfEven_def Let_def)
qed

lemma roundHalfEven_of_int: "roundHalfEven (of_int m) = m"
  by (simp add: roundHalfEven_def)

lemma roundHalfEven_ge_floor: "\<lfloor>z\<rfloor> \<le> roundHalfEven z"
  by (simp add: roundHalfEven_def Let_def)

lemma roundHalfEven_le_floor1: "roundHalfEven z \<le> \<lfloor>z\<rfloor> + 1"
  by (simp add: roundHalfEven_def Let_def)

lemma roundHalfEven_mono:
  assumes "z \<le> w"
  shows "roundHalfEven z \<le> roundHalfEven w"
proof (cases "\<lfloor>z\<rfloor> = \<lfloor>w\<rfloor>")
  case True
  have "z - of_int \<lfloor>w\<rfloor> \<le> w - of_int \<lfloor>w\<rfloor>"
    using assms by simp
  then show ?thesis
    unfolding roundHalfEven_def Let_def True by (simp split: if_splits)
next
  case False
  have "\<lfloor>z\<rfloor> \<le> \<lfloor>w\<rfloor>"
    using assms by (rule floor_mono)
  with False have "\<lfloor>z\<rfloor> + 1 \<le> \<lfloor>w\<rfloor>"
    by simp
  with roundHalfEven_le_floor1 [of z] roundHalfEven_ge_floor [of w] show ?thesis
    by linarith
qed

lemma roundHalfEven_minus: "roundHalfEven (- z) = - roundHalfEven z"
proof (cases "z = of_int \<lfloor>z\<rfloor>")
  case True
  have "roundHalfEven (- of_int \<lfloor>z\<rfloor>) = - roundHalfEven (of_int \<lfloor>z\<rfloor>)"
    using roundHalfEven_of_int [of "- \<lfloor>z\<rfloor>"] roundHalfEven_of_int [of "\<lfloor>z\<rfloor>"] by simp
  with True show ?thesis by simp
next
  case False
  have b: "of_int \<lfloor>z\<rfloor> < z" "z < of_int \<lfloor>z\<rfloor> + 1"
    using False by linarith+
  have fl: "\<lfloor>- z\<rfloor> = - \<lfloor>z\<rfloor> - 1"
    using b by (intro floor_unique) auto
  have c: "- z - of_int (- \<lfloor>z\<rfloor> - 1) = 1 - (z - of_int \<lfloor>z\<rfloor>)"
    by simp
  show ?thesis
    unfolding roundHalfEven_def Let_def fl c using b by (simp split: if_splits)
qed

lemma bitlen_pos: "0 < m \<Longrightarrow> 1 \<le> bitlen m"
  using bitlen_bounds [of m] by (cases "bitlen m \<le> 0") auto

lemma binexp_bounds:
  assumes "v \<noteq> 0"
  shows "2 powi binexp v \<le> \<bar>v\<bar>" and "\<bar>v\<bar> < 2 powi (binexp v + 1)"
proof -
  have "2 powi binexp v \<le> \<bar>v\<bar> \<and> \<bar>v\<bar> < 2 powi (binexp v + 1)"
  proof (cases "1 \<le> \<bar>v\<bar>")
    case True
    define m where "m = \<lfloor>\<bar>v\<bar>\<rfloor>"
    have m1: "1 \<le> m"
      using True unfolding m_def by simp
    have lo: "of_int m \<le> \<bar>v\<bar>" and hi: "\<bar>v\<bar> < of_int (m + 1)"
      unfolding m_def by linarith+
    define L where "L = bitlen m"
    have L1: "1 \<le> L"
      unfolding L_def using m1 by (intro bitlen_pos) simp
    have bb: "2 ^ nat (L - 1) \<le> m" "m < 2 ^ nat L"
      using bitlen_bounds [of m] m1 unfolding L_def by auto
    have e: "binexp v = L - 1"
      using True by (simp add: binexp_def m_def L_def)
    have p1: "(2::rat) powi (L - 1) = of_int (2 ^ nat (L - 1))"
      using L1 by (simp add: power_int_nonneg_exp)
    have p2: "(2::rat) powi L = of_int (2 ^ nat L)"
      using L1 by (simp add: power_int_nonneg_exp)
    have a: "(2::rat) powi (L - 1) \<le> \<bar>v\<bar>"
      unfolding p1 using bb(1) lo by (meson of_int_le_iff order_trans)
    have "m + 1 \<le> 2 ^ nat L"
      using bb(2) by simp
    then have "(of_int (m + 1) :: rat) \<le> of_int (2 ^ nat L)"
      by (simp only: of_int_le_iff)
    with hi have b: "\<bar>v\<bar> < 2 powi L"
      unfolding p2 by linarith
    from a b show ?thesis
      by (simp add: e)
  next
    case False
    define w where "w = 1 / \<bar>v\<bar>"
    have vpos: "0 < \<bar>v\<bar>"
      using assms by simp
    have w1: "1 < w"
      using False vpos by (simp add: w_def)
    define c where "c = \<lceil>w\<rceil> - 1"
    have lo: "of_int c < w" and hi: "w \<le> of_int (c + 1)"
      unfolding c_def by linarith+
    have c1: "1 \<le> c"
      using w1 hi by (smt (verit) of_int_le_iff of_int_1 order_less_le_trans linorder_not_le)
    define L where "L = bitlen c"
    have L1: "1 \<le> L"
      unfolding L_def using c1 by (intro bitlen_pos) simp
    have bb: "2 ^ nat (L - 1) \<le> c" "c < 2 ^ nat L"
      using bitlen_bounds [of c] c1 unfolding L_def by auto
    have e: "binexp v = - L"
      using False by (simp add: binexp_def c_def w_def L_def)
    have p1: "(2::rat) powi (L - 1) = of_int (2 ^ nat (L - 1))"
      using L1 by (simp add: power_int_nonneg_exp)
    have p2: "(2::rat) powi L = of_int (2 ^ nat L)"
      using L1 by (simp add: power_int_nonneg_exp)
    have "c + 1 \<le> 2 ^ nat L"
      using bb(2) by simp
    then have "(of_int (c + 1) :: rat) \<le> of_int (2 ^ nat L)"
      by (simp only: of_int_le_iff)
    with hi have wle: "w \<le> 2 powi L"
      unfolding p2 by linarith
    have "(of_int (2 ^ nat (L - 1)) :: rat) \<le> of_int c"
      using bb(1) by (simp only: of_int_le_iff)
    with lo have wgt: "2 powi (L - 1) < w"
      unfolding p1 by linarith
    have v: "\<bar>v\<bar> = 1 / w"
      by (simp add: w_def)
    have wpos: "0 < w"
      using w1 by simp
    have a: "2 powi (- L) \<le> \<bar>v\<bar>"
      unfolding v power_int_minus_divide using wle wpos
      by (intro divide_left_mono) (simp_all add: zero_less_mult_iff)
    have ppos: "(0::rat) < 2 powi (L - 1)"
      by simp
    have b: "\<bar>v\<bar> < 2 powi (- L + 1)"
    proof -
      have "1 / w < 1 / 2 powi (L - 1)"
        using wgt ppos wpos by (intro divide_strict_left_mono) (simp_all add: zero_less_mult_iff)
      also have "1 / (2::rat) powi (L - 1) = 2 powi (- (L - 1))"
        by (simp only: power_int_minus_divide)
      also have "- (L - 1) = - L + 1"
        by simp
      finally show ?thesis
        by (simp only: v)
    qed
    from a b show ?thesis
      by (simp add: e)
  qed
  then show "2 powi binexp v \<le> \<bar>v\<bar>" and "\<bar>v\<bar> < 2 powi (binexp v + 1)"
    by simp_all
qed

lemma binexp_minus: "binexp (- v) = binexp v"
  by (simp add: binexp_def)

lemma quantum_minus: "quantum (- v) = quantum v"
  by (simp add: quantum_def binexp_minus)

lemma quantum_pos: "0 < quantum v"
  by (simp add: quantum_def)

lemma nearestDouble_minus: "nearestDouble (- v) = - nearestDouble v"
  by (simp add: nearestDouble_def quantum_minus roundHalfEven_minus)

lemma binexp_mono:
  assumes "0 < v" "v \<le> w"
  shows "binexp v \<le> binexp w"
proof (rule ccontr)
  assume "\<not> binexp v \<le> binexp w"
  then have "binexp w + 1 \<le> binexp v"
    by simp
  then have "(2::rat) powi (binexp w + 1) \<le> 2 powi binexp v"
    by (intro power_int_increasing) simp_all
  moreover have "2 powi binexp v \<le> \<bar>v\<bar>" "\<bar>w\<bar> < 2 powi (binexp w + 1)"
    using binexp_bounds [of v] binexp_bounds [of w] assms by simp_all
  ultimately show False
    using assms by simp
qed

lemma quantum_eq: "quantum v = 2 powi (max (binexp v) (- 1022)) / 2 ^ 52"
proof -
  have "(2::rat) powi (max (binexp v) (- 1022) - 52) =
      2 powi (max (binexp v) (- 1022)) * 2 powi (- 52)"
    by (subst power_int_add [symmetric]) simp_all
  also have "(2::rat) powi (- 52) = 1 / 2 ^ 52"
    by (simp add: power_int_minus_divide)
  finally show ?thesis
    by (simp add: quantum_def)
qed

lemma nearestDouble_nonneg:
  assumes "0 \<le> v"
  shows "0 \<le> nearestDouble v"
proof -
  have "0 \<le> v / quantum v"
    using assms quantum_pos [of v] by simp
  then have "roundHalfEven 0 \<le> roundHalfEven (v / quantum v)"
    by (rule roundHalfEven_mono)
  then have "0 \<le> roundHalfEven (v / quantum v)"
    using roundHalfEven_of_int [of 0] by simp
  then show ?thesis
    using quantum_pos [of v] by (simp add: nearestDouble_def)
qed

lemma nearestDouble_top:
  assumes "0 < v"
  shows "nearestDouble v \<le> 2 powi (max (binexp v) (- 1022) + 1)"
proof -
  let ?E = "max (binexp v) (- 1022)"
  have q: "quantum v = 2 powi ?E / 2 ^ 52"
    by (rule quantum_eq)
  have "\<bar>v\<bar> < 2 powi (binexp v + 1)"
    using assms by (intro binexp_bounds) simp
  also have "(2::rat) powi (binexp v + 1) \<le> 2 powi (?E + 1)"
    by (intro power_int_increasing) simp_all
  finally have v: "v < 2 powi (?E + 1)"
    using assms by simp
  have two: "(2::rat) powi (?E + 1) = 2 powi ?E * 2"
    by (simp add: power_int_add)
  have "v / quantum v \<le> of_int (2 ^ 53)"
    using v unfolding q two by (simp add: field_simps)
  then have "roundHalfEven (v / quantum v) \<le> roundHalfEven (of_int (2 ^ 53))"
    by (rule roundHalfEven_mono)
  then have "roundHalfEven (v / quantum v) \<le> 2 ^ 53"
    by (simp only: roundHalfEven_of_int)
  then have "(of_int (roundHalfEven (v / quantum v)) :: rat) \<le> of_int (2 ^ 53)"
    by (simp only: of_int_le_iff)
  then have "of_int (roundHalfEven (v / quantum v)) * quantum v \<le> of_int (2 ^ 53) * quantum v"
    using quantum_pos [of v] by (intro mult_right_mono) simp_all
  also have "of_int (2 ^ 53) * quantum v = 2 powi (?E + 1)"
    unfolding q two by simp
  finally show ?thesis
    using assms by (simp add: nearestDouble_def)
qed

lemma nearestDouble_bottom:
  assumes "0 < v" "- 1022 \<le> binexp v"
  shows "2 powi binexp v \<le> nearestDouble v"
proof -
  have E: "max (binexp v) (- 1022) = binexp v"
    using assms(2) by simp
  have q: "quantum v = 2 powi binexp v / 2 ^ 52"
    using quantum_eq [of v] by (simp only: E)
  have v: "2 powi binexp v \<le> v"
    using binexp_bounds(1) [of v] assms(1) by simp
  have "of_int (2 ^ 52) \<le> v / quantum v"
    using v unfolding q by (simp add: field_simps)
  then have "roundHalfEven (of_int (2 ^ 52)) \<le> roundHalfEven (v / quantum v)"
    by (rule roundHalfEven_mono)
  then have "2 ^ 52 \<le> roundHalfEven (v / quantum v)"
    by (simp only: roundHalfEven_of_int)
  then have "(of_int (2 ^ 52) :: rat) \<le> of_int (roundHalfEven (v / quantum v))"
    by (simp only: of_int_le_iff)
  then have "of_int (2 ^ 52) * quantum v \<le> of_int (roundHalfEven (v / quantum v)) * quantum v"
    using quantum_pos [of v] by (intro mult_right_mono) simp_all
  moreover have "of_int (2 ^ 52) * quantum v = 2 powi binexp v"
    unfolding q by simp
  ultimately show ?thesis
    using assms(1) by (simp add: nearestDouble_def)
qed

lemma nearestDouble_mono_pos:
  assumes "0 < v" "v \<le> w"
  shows "nearestDouble v \<le> nearestDouble w"
proof -
  let ?Ev = "max (binexp v) (- 1022)" and ?Ew = "max (binexp w) (- 1022)"
  have wpos: "0 < w"
    using assms by simp
  have le: "?Ev \<le> ?Ew"
    using binexp_mono [OF assms] by simp
  show ?thesis
  proof (cases "?Ev = ?Ew")
    case True
    then have q: "quantum v = quantum w"
      by (simp add: quantum_def)
    have "v / quantum w \<le> w / quantum w"
      using assms(2) quantum_pos [of w] by (simp add: divide_right_mono)
    then have "roundHalfEven (v / quantum w) \<le> roundHalfEven (w / quantum w)"
      by (rule roundHalfEven_mono)
    then have "(of_int (roundHalfEven (v / quantum w)) :: rat) \<le>
        of_int (roundHalfEven (w / quantum w))"
      by (simp only: of_int_le_iff)
    then have "of_int (roundHalfEven (v / quantum w)) * quantum w \<le>
        of_int (roundHalfEven (w / quantum w)) * quantum w"
      using quantum_pos [of w] by (intro mult_right_mono) simp_all
    then show ?thesis
      using assms(1) wpos by (simp add: nearestDouble_def q)
  next
    case False
    with le have lt: "?Ev + 1 \<le> ?Ew"
      by simp
    then have big: "- 1022 \<le> binexp w" and Ew: "?Ew = binexp w"
      by auto
    have "nearestDouble v \<le> 2 powi (?Ev + 1)"
      using assms(1) by (rule nearestDouble_top)
    also have "(2::rat) powi (?Ev + 1) \<le> 2 powi ?Ew"
      using lt by (intro power_int_increasing) simp_all
    also have "(2::rat) powi ?Ew = 2 powi binexp w"
      by (simp only: Ew)
    also have "\<dots> \<le> nearestDouble w"
      using wpos big by (rule nearestDouble_bottom)
    finally show ?thesis .
  qed
qed

lemma nearestDouble_mono:
  assumes "v \<le> w"
  shows "nearestDouble v \<le> nearestDouble w"
proof -
  consider (pos) "0 < v" | (neg) "w < 0" | (mid) "v \<le> 0" "0 \<le> w"
    by linarith
  then show ?thesis
  proof cases
    case pos
    then show ?thesis using assms by (rule nearestDouble_mono_pos)
  next
    case neg
    have "nearestDouble (- w) \<le> nearestDouble (- v)"
      using neg assms by (intro nearestDouble_mono_pos) simp_all
    then show ?thesis
      by (simp add: nearestDouble_minus)
  next
    case mid
    have "0 \<le> nearestDouble (- v)"
      using mid(1) by (intro nearestDouble_nonneg) simp
    then have "nearestDouble v \<le> 0"
      by (simp add: nearestDouble_minus)
    moreover have "0 \<le> nearestDouble w"
      using mid(2) by (rule nearestDouble_nonneg)
    ultimately show ?thesis by simp
  qed
qed

lemma nearestDouble_error: "\<bar>nearestDouble v - v\<bar> \<le> max (\<bar>v\<bar> / 2 ^ 53) tiny"
proof (cases "v = 0")
  case True
  then show ?thesis
    by (simp add: nearestDouble_def tiny_def max_def)
next
  case False
  let ?q = "quantum v"
  have qpos: "0 < ?q"
    by (rule quantum_pos)
  have "nearestDouble v - v = (of_int (roundHalfEven (v / ?q)) - v / ?q) * ?q"
    using False qpos by (simp add: nearestDouble_def field_simps)
  then have "\<bar>nearestDouble v - v\<bar> = \<bar>of_int (roundHalfEven (v / ?q)) - v / ?q\<bar> * ?q"
    using qpos by (simp add: abs_mult)
  also have "\<dots> \<le> 1 / 2 * ?q"
    using roundHalfEven_error [of "v / ?q"] qpos by (intro mult_right_mono) simp_all
  finally have err: "\<bar>nearestDouble v - v\<bar> \<le> ?q / 2"
    by simp
  show ?thesis
  proof (cases "- 1022 \<le> binexp v")
    case True
    then have "?q = 2 powi binexp v / 2 ^ 52"
      using quantum_eq [of v] by (simp add: max_def)
    also have "\<dots> \<le> \<bar>v\<bar> / 2 ^ 52"
      using binexp_bounds(1) [OF False] by (simp add: divide_right_mono)
    finally have "?q / 2 \<le> \<bar>v\<bar> / 2 ^ 53"
      by simp
    with err show ?thesis
      by (simp add: max_def)
  next
    case False
    then have "?q = 2 powi (- 1074)"
      by (simp add: quantum_def max_def)
    moreover have "(2::rat) powi (- 1074) = 2 powi (- 1075) * 2"
      by (subst power_int_add_1 [symmetric]) simp_all
    ultimately have "?q / 2 = tiny"
      by (simp add: tiny_def)
    with err show ?thesis
      by (simp add: max_def)
  qed
qed

lemma tiny_pos: "0 < tiny"
  by (simp add: tiny_def)

lemma tiny_le_minNormal: "tiny * 2 ^ 53 \<le> minNormal"
proof -
  have "(2::rat) powi (- 1075 + 53) \<le> 2 powi (- 1022)"
    by (intro power_int_increasing) simp_all
  moreover have "(2::rat) powi (- 1075 + 53) = 2 powi (- 1075) * 2 powi 53"
    by (rule power_int_add) simp
  ultimately show ?thesis
    by (simp add: tiny_def minNormal_def)
qed

lemma minNormal_pos: "0 < minNormal"
  by (simp add: minNormal_def)

lemma minNormal_le_one: "minNormal \<le> 1"
proof -
  have "(2::rat) powi (- 1022) \<le> 2 powi 0"
    by (intro power_int_increasing) simp_all
  then show ?thesis
    by (simp add: minNormal_def)
qed

text \<open>
  The error of one rounding, for an argument of magnitude at most \<open>m\<close> where \<open>m\<close> is at
  least the smallest normal double.
\<close>

lemma nearestDouble_close:
  assumes "\<bar>v\<bar> \<le> m" "minNormal \<le> m"
  shows "\<bar>nearestDouble v - v\<bar> \<le> m / 2 ^ 53"
proof -
  have "tiny * 2 ^ 53 \<le> m"
    using tiny_le_minNormal assms(2) by linarith
  then have "tiny \<le> m / 2 ^ 53"
    by (simp add: field_simps)
  moreover have "\<bar>v\<bar> / 2 ^ 53 \<le> m / 2 ^ 53"
    using assms(1) by (simp add: divide_right_mono)
  ultimately show ?thesis
    using nearestDouble_error [of v] by (simp add: max_def split: if_splits)
qed

subsection \<open>The hazard loop\<close>

lemma forEachHazard_hazards: "fst (forEachHazard hzs s) = map moveHazard hzs"
  by (induction hzs arbitrary: s) (simp_all add: Let_def case_prod_beta)

lemma forEachHazard_running: "gameRunning (snd (forEachHazard hzs s)) = gameRunning s"
  by (induction hzs arbitrary: s) (simp_all add: Let_def resetPlayer_def case_prod_beta)

lemma player_resetPlayer: "player (resetPlayer s) = spawned (player s)"
  by (simp add: resetPlayer_def spawned_def)

lemma spawned_idem: "spawned (spawned p) = spawned p"
  by (simp add: spawned_def)

lemma forEachHazard_player:
  "player (snd (forEachHazard hzs s)) =
     (if hazardHit (player s) hzs then spawned (player s) else player s)"
proof (induction hzs arbitrary: s)
  case Nil
  show ?case by (simp add: hazardHit_def)
next
  case (Cons hz hzs)
  show ?case
  proof (cases "rectIntersect (player s) (moveHazard hz)")
    case True
    then show ?thesis
      using Cons.IH [of "resetPlayer s"]
      by (simp add: Let_def hazardHit_def player_resetPlayer spawned_idem case_prod_beta)
  next
    case False
    then show ?thesis
      using Cons.IH [of s]
      by (simp add: Let_def hazardHit_def case_prod_beta)
  qed
qed

lemma forEachHazard_timers:
  "\<exists>k. timers (snd (forEachHazard hzs s)) = timers s @ replicate k (FlashInterval 6 100) \<and>
       (0 < k) = hazardHit (player s) hzs"
proof (induction hzs arbitrary: s)
  case Nil
  show ?case by (simp add: hazardHit_def)
next
  case (Cons hz hzs)
  show ?case
  proof (cases "rectIntersect (player s) (moveHazard hz)")
    case True
    obtain k where k: "timers (snd (forEachHazard hzs (resetPlayer s))) =
        timers (resetPlayer s) @ replicate k (FlashInterval 6 100)"
      using Cons.IH [of "resetPlayer s"] by blast
    have "timers (snd (forEachHazard (hz # hzs) s)) =
        timers s @ replicate (Suc k) (FlashInterval 6 100)"
      using True k by (simp add: Let_def resetPlayer_def case_prod_beta)
    moreover have "hazardHit (player s) (hz # hzs)"
      using True by (simp add: hazardHit_def)
    ultimately show ?thesis by (metis zero_less_Suc)
  next
    case False
    then show ?thesis
      using Cons.IH [of s]
      by (simp add: Let_def hazardHit_def case_prod_beta)
  qed
qed

lemma hazardPhase_player:
  "player (hazardPhase s) =
     (if hazardHit (player s) (hazards s) then spawned (player s) else player s)"
  by (simp add: hazardPhase_def case_prod_beta forEachHazard_player)

lemma hazardPhase_hazards: "hazards (hazardPhase s) = map moveHazard (hazards s)"
  by (simp add: hazardPhase_def case_prod_beta forEachHazard_hazards)

lemma hazardPhase_running: "gameRunning (hazardPhase s) = gameRunning s"
  by (simp add: hazardPhase_def case_prod_beta forEachHazard_running)

lemma hazardPhase_timers:
  "\<exists>k. timers (hazardPhase s) = timers s @ replicate k (FlashInterval 6 100) \<and>
       (0 < k) = hazardHit (player s) (hazards s)"
  using forEachHazard_timers [of "hazards s" s]
  by (simp add: hazardPhase_def case_prod_beta)

subsection \<open>The goal test\<close>

lemma goalPhase_player:
  "player (goalPhase s) =
     (if rectIntersect (player s) goal then (player s)\<lparr>complete := True\<rparr> else player s)"
  by (simp add: goalPhase_def completeLevel_def)

lemma goalPhase_hazards: "hazards (goalPhase s) = hazards s"
  by (simp add: goalPhase_def completeLevel_def)

lemma goalPhase_running: "gameRunning (goalPhase s) = gameRunning s"
  by (simp add: goalPhase_def completeLevel_def)

lemma goalPhase_timers:
  "timers (goalPhase s) =
     (if rectIntersect (player s) goal then timers s @ [ShowFormTimeout 300] else timers s)"
  by (simp add: goalPhase_def completeLevel_def)

subsection \<open>The player's physics\<close>

lemmas physics_defs =
  physics_def beforeGround_def groundCollision_def keepInBounds_def updatePosition_def
  applyGravity_def jumping_def horizontal_def Let_def

lemma physics_width: "width (physics ks p) = width p"
  by (simp add: physics_defs)

lemma physics_complete: "complete (physics ks p) = complete p"
  by (simp add: physics_defs)

lemma physics_vx: "vx (physics ks p) = wantedVx ks"
  by (simp add: physics_defs wantedVx_def)

lemma physics_x_bounds:
  assumes "width p \<le> GAME_WIDTH"
  shows "0 \<le> x (physics ks p) \<and> x (physics ks p) \<le> GAME_WIDTH - width p"
  using assms by (simp add: physics_defs)

subsection \<open>One frame\<close>

lemma update_hazards:
  "hazards (update ks s) =
     (if \<not> gameRunning s \<or> complete (player s) then hazards s
      else map moveHazard (hazards s))"
  by (simp add: update_def goalPhase_hazards hazardPhase_hazards)

lemma update_running: "gameRunning (update ks s) = gameRunning s"
  by (simp add: update_def goalPhase_running hazardPhase_running)

lemma atGoalTest_eq:
  "atGoalTest ks s =
     (if hazardHit (physics ks (player s)) (hazards s) then spawned (physics ks (player s))
      else physics ks (player s))"
  by (simp add: atGoalTest_def hazardPhase_player)

lemma update_player:
  assumes "gameRunning s" "\<not> complete (player s)"
  shows "player (update ks s) =
     (if rectIntersect (atGoalTest ks s) goal then (atGoalTest ks s)\<lparr>complete := True\<rparr>
      else atGoalTest ks s)"
  using assms by (simp add: update_def goalPhase_player atGoalTest_def)

lemma update_timers:
  assumes "gameRunning s" "\<not> complete (player s)"
  shows "\<exists>k. startedBy ks s =
           replicate k (FlashInterval 6 100) @
           (if rectIntersect (atGoalTest ks s) goal then [ShowFormTimeout 300] else []) \<and>
         (0 < k) = hazardHit (physics ks (player s)) (hazards s)"
proof -
  let ?s1 = "s\<lparr>player := physics ks (player s)\<rparr>"
  obtain k where k: "timers (hazardPhase ?s1) = timers ?s1 @ replicate k (FlashInterval 6 100)"
    "(0 < k) = hazardHit (player ?s1) (hazards ?s1)"
    using hazardPhase_timers [of ?s1] by blast
  have "startedBy ks s = replicate k (FlashInterval 6 100) @
           (if rectIntersect (atGoalTest ks s) goal then [ShowFormTimeout 300] else [])"
    using assms k(1) by (simp add: startedBy_def update_def goalPhase_timers atGoalTest_def)
  with k(2) show ?thesis by auto
qed

lemma update_idle:
  assumes "\<not> gameRunning s \<or> complete (player s)"
  shows "update ks s = s"
  using assms by (simp add: update_def)

lemma frames_complete:
  assumes "complete (player s)"
  shows "frames kss s = s"
  using assms by (induction kss) (simp_all add: update_idle)

lemma update_width: "width (player (update ks s)) = width (player s)"
  by (simp add: update_def goalPhase_player hazardPhase_player spawned_def physics_width)

lemma atGoalTest_width: "width (atGoalTest ks s) = width (player s)"
  by (simp add: atGoalTest_eq spawned_def physics_width)

lemma update_x_bounds:
  assumes "width (player s) \<le> 750"
    and "0 \<le> x (player s)" and "x (player s) \<le> GAME_WIDTH - width (player s)"
  shows "0 \<le> x (player (update ks s)) \<and>
         x (player (update ks s)) \<le> GAME_WIDTH - width (player (update ks s))"
proof (cases "\<not> gameRunning s \<or> complete (player s)")
  case True
  then show ?thesis using assms by (simp add: update_def)
next
  case False
  have w: "width (player s) \<le> GAME_WIDTH"
    using assms(1) by (simp add: GAME_WIDTH_def)
  have p: "0 \<le> x (physics ks (player s)) \<and>
           x (physics ks (player s)) \<le> GAME_WIDTH - width (player s)"
    using w by (rule physics_x_bounds)
  have a: "0 \<le> x (atGoalTest ks s) \<and> x (atGoalTest ks s) \<le> GAME_WIDTH - width (player s)"
    using p assms(1) by (simp add: atGoalTest_eq spawned_def GAME_WIDTH_def)
  show ?thesis
    using False a by (simp add: update_player atGoalTest_width)
qed


lemma update_complete_kept:
  assumes "complete (player s)"
  shows "complete (player (update ks s))"
  using assms by (simp add: update_def)

subsection \<open>Unfolding the level data\<close>

lemmas level_defs =
  playerAt_def levelWith_def startGame_def initial_def player0_def hazards0_def
  staticHazard_def movingHazard_def ground_def goal_def
  GAME_WIDTH_def GRAVITY_def MOVE_SPEED_def JUMP_SPEED_def

lemmas key_defs = pressed_def noKeys_def rightOnly_def leftAndRight_def


subsection \<open>Moving hazards\<close>




lemma update_hazard_nth:
  assumes "i < length (hazards s)"
  shows "hazards (update ks s) ! i =
     (if \<not> gameRunning s \<or> complete (player s) then hazards s ! i
      else moveHazard (hazards s ! i))"
    and "length (hazards (update ks s)) = length (hazards s)"
  using assms by (simp_all add: update_hazards)



lemma level_speed_is_double:
  "nearestDouble (6 / 5) = 5404319552844595 / 4503599627370496"
  by code_simp


subsection \<open>Walking right, left of the hazards\<close>

lemma moveHazard_x: "x (moveHazard hz) = x hz"
  by (simp add: moveHazard_def Let_def split: option.splits)

lemma no_hit_left_of_hazards:
  assumes "\<forall>hz\<in>set hzs. x p + width p \<le> x hz"
  shows "\<not> hazardHit p hzs"
  using assms by (auto simp: hazardHit_def list_ex_iff rectIntersect_def moveHazard_x)

lemma hazards_x_update:
  assumes "\<forall>hz\<in>set (hazards s). c \<le> x hz"
  shows "\<forall>hz\<in>set (hazards (update ks s)). c \<le> x hz"
  using assms by (auto simp: update_hazards moveHazard_x)

lemma walk_right:
  assumes "gameRunning s" "\<not> complete (player s)"
    and "y (player s) = 500" "vy (player s) = 0" "height (player s) = 60" "width (player s) = 40"
    and "0 \<le> x (player s) + 4" "x (player s) + 44 \<le> 400"
    and "\<forall>hz\<in>set (hazards s). 400 \<le> x hz"
    and "onGround (player s) \<or> \<not> pressed ks ''ArrowUp''"
    and "pressed ks ''ArrowRight''" "\<not> pressed ks ''ArrowLeft''" "\<not> pressed ks ''ArrowUp''"
  shows "player (update ks s) = (player s)\<lparr>x := x (player s) + 4, vx := 4, onGround := True\<rparr>"
proof -
  have ph: "physics ks (player s) = (player s)\<lparr>x := x (player s) + 4, vx := 4, onGround := True\<rparr>"
    using assms(3-8,11-13)
    by (simp add: physics_defs ground_def GAME_WIDTH_def GRAVITY_def MOVE_SPEED_def)
  have "\<forall>hz\<in>set (hazards s). x (physics ks (player s)) + width (physics ks (player s)) \<le> x hz"
    using assms(6,8,9) by (auto simp: ph)
  then have nh: "\<not> hazardHit (physics ks (player s)) (hazards s)"
    by (rule no_hit_left_of_hazards)
  have at: "atGoalTest ks s = physics ks (player s)"
    using nh by (simp add: atGoalTest_eq)
  have ng: "\<not> rectIntersect (physics ks (player s)) goal"
    using assms(6,8) by (simp add: ph rectIntersect_def goal_def)
  show ?thesis
    using assms(1,2) ng by (simp add: update_player at ph)
qed

lemma walk_frames:
  assumes "gameRunning s" "\<not> complete (player s)"
    and "y (player s) = 500" "vy (player s) = 0" "height (player s) = 60" "width (player s) = 40"
    and "0 \<le> x (player s)" "x (player s) + 4 * of_nat (Suc n) + 40 \<le> 400"
    and "\<forall>hz\<in>set (hazards s). 400 \<le> x hz"
  shows "player (frames (replicate (Suc n) rightOnly) s) =
           (player s)\<lparr>x := x (player s) + 4 * of_nat (Suc n), vx := 4, onGround := True\<rparr>"
  using assms
proof (induction n arbitrary: s)
  case 0
  have k: "pressed rightOnly ''ArrowRight''" "\<not> pressed rightOnly ''ArrowLeft''"
      "\<not> pressed rightOnly ''ArrowUp''"
    by (simp_all add: pressed_def rightOnly_def)
  have "player (update rightOnly s) = (player s)\<lparr>x := x (player s) + 4, vx := 4, onGround := True\<rparr>"
    using "0.prems" k by (intro walk_right) simp_all
  then show ?case by simp
next
  case (Suc n)
  have k: "pressed rightOnly ''ArrowRight''" "\<not> pressed rightOnly ''ArrowLeft''"
      "\<not> pressed rightOnly ''ArrowUp''"
    by (simp_all add: pressed_def rightOnly_def)
  have one: "player (update rightOnly s) = (player s)\<lparr>x := x (player s) + 4, vx := 4, onGround := True\<rparr>"
    using Suc.prems k by (intro walk_right) simp_all
  have r: "gameRunning (update rightOnly s)"
    using Suc.prems(1) by (simp add: update_running)
  have hx: "\<forall>hz\<in>set (hazards (update rightOnly s)). 400 \<le> x hz"
    using Suc.prems(9) by (rule hazards_x_update)
  have "player (frames (replicate (Suc n) rightOnly) (update rightOnly s)) =
      (player (update rightOnly s))\<lparr>x := x (player (update rightOnly s)) + 4 * of_nat (Suc n),
        vx := 4, onGround := True\<rparr>"
    using r hx Suc.prems by (intro Suc.IH) (simp_all add: one)
  then show ?case
    by (simp add: one algebra_simps)
qed

lemma level_walk:
  assumes "n < 77"
  shows "player (frames (replicate (Suc n) rightOnly) (startGame initial)) =
     player0\<lparr>x := 54 + 4 * of_nat n, vx := 4, onGround := True\<rparr>"
proof -
  have "player (frames (replicate (Suc n) rightOnly) (startGame initial)) =
      (player (startGame initial))\<lparr>x := x (player (startGame initial)) + 4 * of_nat (Suc n),
        vx := 4, onGround := True\<rparr>"
    using assms
    by (intro walk_frames)
      (simp_all add: startGame_def initial_def player0_def hazards0_def staticHazard_def
        movingHazard_def)
  then show ?thesis
    by (simp add: startGame_def initial_def player0_def algebra_simps)
qed


subsection \<open>Frames and moves of one hazard\<close>

lemma ticks_shift: "ticks k (moveHazard hz) = moveHazard (ticks k hz)"
  by (induction k) simp_all

lemma frames_ticks:
  assumes "gameRunning s" "i < length (hazards s)" "k \<le> length kss"
    and "\<forall>j<k. \<not> complete (player (frames (take j kss) s))"
  shows "hazards (frames (take k kss) s) ! i = ticks k (hazards s ! i)"
  using assms
proof (induction kss arbitrary: s k)
  case Nil
  then show ?case by simp
next
  case (Cons ks kss)
  show ?case
  proof (cases k)
    case 0
    then show ?thesis by simp
  next
    case (Suc k')
    have nc: "\<not> complete (player s)"
      using Cons.prems(4) [rule_format, of 0] Suc by simp
    have mv: "hazards (update ks s) ! i = moveHazard (hazards s ! i)"
      using Cons.prems(1,2) nc by (simp add: update_hazard_nth)
    have r: "gameRunning (update ks s)"
      using Cons.prems(1) by (simp add: update_running)
    have len: "i < length (hazards (update ks s))"
      using Cons.prems(2) by (simp add: update_hazard_nth)
    have le: "k' \<le> length kss"
      using Cons.prems(3) Suc by simp
    have later: "\<forall>j<k'. \<not> complete (player (frames (take j kss) (update ks s)))"
    proof (intro allI impI)
      fix j assume "j < k'"
      then have "Suc j < k"
        using Suc by simp
      then show "\<not> complete (player (frames (take j kss) (update ks s)))"
        using Cons.prems(4) [rule_format, of "Suc j"] by simp
    qed
    have "hazards (frames (take k' kss) (update ks s)) ! i = ticks k' (hazards (update ks s) ! i)"
      using r len le later by (rule Cons.IH)
    then show ?thesis
      by (simp add: Suc mv ticks_shift)
  qed
qed


subsection \<open>Standing still, left of the hazards\<close>

lemma stand_still:
  assumes "gameRunning s" "\<not> complete (player s)"
    and "y (player s) = 500" "vy (player s) = 0" "height (player s) = 60" "width (player s) = 40"
    and "0 \<le> x (player s)" "x (player s) + 40 \<le> 400"
    and "\<forall>hz\<in>set (hazards s). 400 \<le> x hz"
  shows "player (update noKeys s) = (player s)\<lparr>vx := 0, onGround := True\<rparr>"
proof -
  have ph: "physics noKeys (player s) = (player s)\<lparr>vx := 0, onGround := True\<rparr>"
    using assms(3-8)
    by (simp add: physics_defs ground_def GAME_WIDTH_def GRAVITY_def pressed_def noKeys_def)
  have "\<forall>hz\<in>set (hazards s).
      x (physics noKeys (player s)) + width (physics noKeys (player s)) \<le> x hz"
    using assms(6,8,9) by (auto simp: ph)
  then have nh: "\<not> hazardHit (physics noKeys (player s)) (hazards s)"
    by (rule no_hit_left_of_hazards)
  have at: "atGoalTest noKeys s = physics noKeys (player s)"
    using nh by (simp add: atGoalTest_eq)
  have ng: "\<not> rectIntersect (physics noKeys (player s)) goal"
    using assms(6,8) by (simp add: ph rectIntersect_def goal_def)
  show ?thesis
    using assms(1,2) ng by (simp add: update_player at ph)
qed

lemma idle_frames:
  assumes "gameRunning s" "\<not> complete (player s)"
    and "y (player s) = 500" "vy (player s) = 0" "height (player s) = 60" "width (player s) = 40"
    and "0 \<le> x (player s)" "x (player s) + 40 \<le> 400"
    and "\<forall>hz\<in>set (hazards s). 400 \<le> x hz"
  shows "\<not> complete (player (frames (replicate n noKeys) s))"
  using assms
proof (induction n arbitrary: s)
  case 0
  then show ?case by simp
next
  case (Suc n)
  have one: "player (update noKeys s) = (player s)\<lparr>vx := 0, onGround := True\<rparr>"
    using Suc.prems by (rule stand_still)
  have r: "gameRunning (update noKeys s)"
    using Suc.prems(1) by (simp add: update_running)
  have hx: "\<forall>hz\<in>set (hazards (update noKeys s)). 400 \<le> x hz"
    using Suc.prems(9) by (rule hazards_x_update)
  have "\<not> complete (player (frames (replicate n noKeys) (update noKeys s)))"
    using r hx Suc.prems by (intro Suc.IH) (simp_all add: one)
  then show ?case by simp
qed


subsection \<open>The doubles of the examples\<close>

lemma literals_are_doubles:
  "nearestDouble (1181 / 10) = 4155274343691059 / 35184372088832 \<and>
   nearestDouble (1281 / 10) = 4507118064579379 / 35184372088832"
  by code_simp

section \<open>The collision test\<close>



section \<open>A frame that does nothing\<close>

text \<open>
  C8. While the game is not running, or once the player has completed the level, a call of
  \<open>update\<close> returns the world as it was: player, hazards and everything else, whatever
  the keys.
\<close>

theorem update_paused_or_complete_noop:
  assumes "\<not> gameRunning s \<or> complete (player s)"
  shows "update ks s = s"
  using assms by (simp add: update_def)

theorem update_paused_or_complete_noop_witness:
  "\<not> gameRunning initial \<and> update leftAndRight initial = initial \<and>
   complete (player (playerAt 740 500\<lparr>player := player0\<lparr>complete := True\<rparr>\<rparr>)) \<and>
   update rightOnly (playerAt 740 500\<lparr>player := player0\<lparr>complete := True\<rparr>\<rparr>) =
     playerAt 740 500\<lparr>player := player0\<lparr>complete := True\<rparr>\<rparr>"
proof -
  let ?done = "playerAt 740 500\<lparr>player := player0\<lparr>complete := True\<rparr>\<rparr>"
  have h: "\<not> gameRunning initial"
    by (simp add: initial_def)
  have c: "complete (player ?done)"
    by simp
  show ?thesis
    using h c update_paused_or_complete_noop [of initial leftAndRight]
      update_paused_or_complete_noop [of ?done rightOnly]
    by blast
qed

section \<open>Horizontal movement\<close>

text \<open>
  C5. In a running frame of an unfinished level the physics leaves the player with the
  horizontal velocity that the keys ask for: \<open>- MOVE_SPEED\<close> with the left key down (also
  when the right key is down too), \<open>MOVE_SPEED\<close> with only the right key down, 0 with
  neither. That is the velocity at the end of the frame unless a hazard was hit, where
  \<open>resetPlayer\<close> has set it to 0.
\<close>

theorem horizontal_velocity_from_keys:
  assumes "gameRunning s" "\<not> complete (player s)"
  shows "vx (horizontal ks (player s)) =
           (if pressed ks ''ArrowLeft'' then - MOVE_SPEED
            else if pressed ks ''ArrowRight'' then MOVE_SPEED else 0) \<and>
         vx (physics ks (player s)) = vx (horizontal ks (player s)) \<and>
         (pressed ks ''ArrowLeft'' \<and> pressed ks ''ArrowRight'' \<longrightarrow>
            vx (physics ks (player s)) = - MOVE_SPEED) \<and>
         vx (player (update ks s)) =
           (if hazardHit (physics ks (player s)) (hazards s) then 0
            else vx (horizontal ks (player s)))"
proof -
  have a: "vx (horizontal ks (player s)) = wantedVx ks"
    by (simp add: horizontal_def wantedVx_def)
  have b: "vx (physics ks (player s)) = wantedVx ks"
    by (rule physics_vx)
  have c: "vx (player (update ks s)) =
      (if hazardHit (physics ks (player s)) (hazards s) then 0 else wantedVx ks)"
    using assms by (simp add: update_player atGoalTest_eq physics_vx spawned_def)
  show ?thesis
    using a b c by (simp add: wantedVx_def)
qed

theorem horizontal_velocity_from_keys_witness:
  "gameRunning (startGame initial) \<and> \<not> complete (player (startGame initial)) \<and>
   pressed leftAndRight ''ArrowLeft'' \<and> pressed leftAndRight ''ArrowRight'' \<and>
   vx (physics leftAndRight (player (startGame initial))) = - 4 \<and>
   vx (player (update leftAndRight (startGame initial))) = - 4"
proof -
  have r: "gameRunning (startGame initial)"
    by (simp add: startGame_def)
  have c: "\<not> complete (player (startGame initial))"
    by (simp add: startGame_def initial_def player0_def)
  have k: "pressed leftAndRight ''ArrowLeft'' \<and> pressed leftAndRight ''ArrowRight''"
    by (simp add: pressed_def leftAndRight_def)
  have h: "\<not> hazardHit (physics leftAndRight (player (startGame initial)))
      (hazards (startGame initial))"
    by code_simp
  show ?thesis
    using horizontal_velocity_from_keys [OF r c, of leftAndRight] r c k h
    by (simp add: MOVE_SPEED_def)
qed

section \<open>Hazards reset the player\<close>

text \<open>
  C2. In a running frame of an unfinished level: when the player, as the physics of the
  frame leaves it, overlaps some hazard as that hazard stands after its own move, the frame
  ends with the player at exactly (50, 500), with both velocities 0 and \<open>onGround\<close>
  false, and the flash timer of \<open>resetPlayer\<close> was started.
\<close>

theorem hazard_overlap_resets_player:
  assumes "gameRunning s" "\<not> complete (player s)"
    and "hz \<in> set (hazards s)"
    and "rectIntersect (physics ks (player s)) (moveHazard hz)"
  shows "x (player (update ks s)) = 50 \<and> y (player (update ks s)) = 500 \<and>
         vx (player (update ks s)) = 0 \<and> vy (player (update ks s)) = 0 \<and>
         \<not> onGround (player (update ks s)) \<and>
         FlashInterval 6 100 \<in> set (startedBy ks s)"
proof -
  have hit: "hazardHit (physics ks (player s)) (hazards s)"
    using assms(3,4) by (auto simp: hazardHit_def list_ex_iff)
  have at: "atGoalTest ks s = spawned (physics ks (player s))"
    using hit by (simp add: atGoalTest_eq)
  have pl: "x (player (update ks s)) = 50 \<and> y (player (update ks s)) = 500 \<and>
         vx (player (update ks s)) = 0 \<and> vy (player (update ks s)) = 0 \<and>
         \<not> onGround (player (update ks s))"
    using assms(1,2) by (simp add: update_player at spawned_def)
  obtain k where k: "startedBy ks s =
           replicate k (FlashInterval 6 100) @
           (if rectIntersect (atGoalTest ks s) goal then [ShowFormTimeout 300] else [])"
      "(0 < k) = hazardHit (physics ks (player s)) (hazards s)"
    using update_timers [OF assms(1,2), of ks] by blast
  from k(2) hit have "0 < k" by simp
  then have "FlashInterval 6 100 \<in> set (replicate k (FlashInterval 6 100))"
    by simp
  then have "FlashInterval 6 100 \<in> set (startedBy ks s)"
    by (simp add: k(1))
  with pl show ?thesis by simp
qed

theorem hazard_overlap_resets_player_witness:
  "gameRunning (playerAt 400 500) \<and> \<not> complete (player (playerAt 400 500)) \<and>
   staticHazard \<in> set (hazards (playerAt 400 500)) \<and>
   rectIntersect (player (playerAt 400 500)) staticHazard \<and>
   rectIntersect (physics noKeys (player (playerAt 400 500))) (moveHazard staticHazard) \<and>
   x (player (update noKeys (playerAt 400 500))) = 50 \<and>
   y (player (update noKeys (playerAt 400 500))) = 500 \<and>
   vx (player (update noKeys (playerAt 400 500))) = 0 \<and>
   vy (player (update noKeys (playerAt 400 500))) = 0 \<and>
   \<not> onGround (player (update noKeys (playerAt 400 500)))"
proof -
  have r: "gameRunning (playerAt 400 500)"
    by (simp add: level_defs)
  have c: "\<not> complete (player (playerAt 400 500))"
    by (simp add: level_defs)
  have m: "staticHazard \<in> set (hazards (playerAt 400 500))"
    by (simp add: playerAt_def startGame_def initial_def hazards0_def)
  have o: "rectIntersect (player (playerAt 400 500)) staticHazard"
    by (simp add: rectIntersect_def level_defs)
  have i: "rectIntersect (physics noKeys (player (playerAt 400 500))) (moveHazard staticHazard)"
    by (simp add: rectIntersect_def moveHazard_def physics_defs level_defs key_defs)
  show ?thesis
    using hazard_overlap_resets_player [OF r c m i] r c m o i by simp
qed

text \<open>
  The overlap that counts is the one at the test. A player that overlaps the static hazard
  by one unit before the frame and walks right leaves it during the physics of the frame:
  no hazard is hit and no reset follows.
\<close>

lemma overlap_before_physics_may_escape:
  "rectIntersect (player (playerAt 449 500)) staticHazard \<and>
   \<not> hazardHit (physics rightOnly (player (playerAt 449 500))) (hazards (playerAt 449 500)) \<and>
   x (player (update rightOnly (playerAt 449 500))) = 453 \<and>
   startedBy rightOnly (playerAt 449 500) = []"
proof -
  have a: "rectIntersect (player (playerAt 449 500)) staticHazard"
    by (simp add: rectIntersect_def level_defs)
  have b: "\<not> hazardHit (physics rightOnly (player (playerAt 449 500))) (hazards (playerAt 449 500))"
    by code_simp
  have c: "x (player (update rightOnly (playerAt 449 500))) = 453"
    by code_simp
  have d: "startedBy rightOnly (playerAt 449 500) = []"
    by code_simp
  from a b c d show ?thesis by simp
qed

section \<open>Ten frames to the right\<close>

text \<open>
  C3. From the started level (player at (50, 500), at rest), with only the right key held,
  the player after frame 1, 2, ..., 10 stands at x = 54, 58, ..., 90, always at y = 500
  with vertical velocity 0 and \<open>onGround\<close> true; and in each of the ten frames gravity had
  raised the vertical velocity to 1/2 and pushed the player below the ground line before
  the ground test put it back.
\<close>

theorem ten_frames_right:
  "map (\<lambda>n. let p = player (frames (replicate n rightOnly) (startGame initial))
            in (x p, y p, vx p, vy p, onGround p, complete p))
       [1, 2, 3, 4, 5, 6, 7, 8, 9, 10] =
     [(54, 500, 4, 0, True, False), (58, 500, 4, 0, True, False),
      (62, 500, 4, 0, True, False), (66, 500, 4, 0, True, False),
      (70, 500, 4, 0, True, False), (74, 500, 4, 0, True, False),
      (78, 500, 4, 0, True, False), (82, 500, 4, 0, True, False),
      (86, 500, 4, 0, True, False), (90, 500, 4, 0, True, False)] \<and>
   map (\<lambda>n. let q = beforeGround rightOnly
                      (player (frames (replicate n rightOnly) (startGame initial)))
            in (vy q, y q + height q > y ground))
       [0, 1, 2, 3, 4, 5, 6, 7, 8, 9] =
     replicate 10 (1 / 2, True)"
proof -
  let ?p = "\<lambda>n. player (frames (replicate n rightOnly) (startGame initial))"
  have p0: "?p 0 = player0"
    by (simp add: startGame_def initial_def)
  have p1: "?p 1 = player0\<lparr>x := 54, vx := 4, onGround := True\<rparr>"
    using level_walk [of 0] by (simp add: numeral_eq_Suc)
  have p2: "?p 2 = player0\<lparr>x := 58, vx := 4, onGround := True\<rparr>"
    using level_walk [of 1] by (simp add: numeral_eq_Suc)
  have p3: "?p 3 = player0\<lparr>x := 62, vx := 4, onGround := True\<rparr>"
    using level_walk [of 2] by (simp add: numeral_eq_Suc)
  have p4: "?p 4 = player0\<lparr>x := 66, vx := 4, onGround := True\<rparr>"
    using level_walk [of 3] by (simp add: numeral_eq_Suc)
  have p5: "?p 5 = player0\<lparr>x := 70, vx := 4, onGround := True\<rparr>"
    using level_walk [of 4] by (simp add: numeral_eq_Suc)
  have p6: "?p 6 = player0\<lparr>x := 74, vx := 4, onGround := True\<rparr>"
    using level_walk [of 5] by (simp add: numeral_eq_Suc)
  have p7: "?p 7 = player0\<lparr>x := 78, vx := 4, onGround := True\<rparr>"
    using level_walk [of 6] by (simp add: numeral_eq_Suc)
  have p8: "?p 8 = player0\<lparr>x := 82, vx := 4, onGround := True\<rparr>"
    using level_walk [of 7] by (simp add: numeral_eq_Suc)
  have p9: "?p 9 = player0\<lparr>x := 86, vx := 4, onGround := True\<rparr>"
    using level_walk [of 8] by (simp add: numeral_eq_Suc)
  have p10: "?p 10 = player0\<lparr>x := 90, vx := 4, onGround := True\<rparr>"
    using level_walk [of 9] by (simp add: numeral_eq_Suc)
  have q: "vy (beforeGround rightOnly (player0\<lparr>x := c, vx := v, onGround := g\<rparr>)) = 1 / 2 \<and>
      y (beforeGround rightOnly (player0\<lparr>x := c, vx := v, onGround := g\<rparr>)) +
        height (beforeGround rightOnly (player0\<lparr>x := c, vx := v, onGround := g\<rparr>)) > y ground"
    for c v g
    by (simp add: beforeGround_def keepInBounds_def updatePosition_def applyGravity_def
        jumping_def horizontal_def Let_def player0_def ground_def GRAVITY_def pressed_def
        rightOnly_def)
  have q0: "vy (beforeGround rightOnly player0) = 1 / 2 \<and>
      y (beforeGround rightOnly player0) + height (beforeGround rightOnly player0) > y ground"
    by (simp add: beforeGround_def keepInBounds_def updatePosition_def applyGravity_def
        jumping_def horizontal_def Let_def player0_def ground_def GRAVITY_def pressed_def
        rightOnly_def)
  have a: "map (\<lambda>n. let p = ?p n in (x p, y p, vx p, vy p, onGround p, complete p))
       [1, 2, 3, 4, 5, 6, 7, 8, 9, 10] =
     [(54, 500, 4, 0, True, False), (58, 500, 4, 0, True, False),
      (62, 500, 4, 0, True, False), (66, 500, 4, 0, True, False),
      (70, 500, 4, 0, True, False), (74, 500, 4, 0, True, False),
      (78, 500, 4, 0, True, False), (82, 500, 4, 0, True, False),
      (86, 500, 4, 0, True, False), (90, 500, 4, 0, True, False)]"
    unfolding list.map Let_def p1 p2 p3 p4 p5 p6 p7 p8 p9 p10
    by (simp add: player0_def)
  have b: "map (\<lambda>n. let q = beforeGround rightOnly (?p n)
            in (vy q, y q + height q > y ground))
       [0, 1, 2, 3, 4, 5, 6, 7, 8, 9] =
     replicate 10 (1 / 2, True)"
    unfolding list.map Let_def p0 p1 p2 p3 p4 p5 p6 p7 p8 p9
    using q q0 by (simp add: numeral_eq_Suc)
  from a b show ?thesis by simp
qed

section \<open>The player stays inside the world\<close>

text \<open>
  C6. For a player no wider than 750 (the player of the script is 40 wide) that starts
  with 0 \<le> x \<le> GAME_WIDTH - width: after any sequence of frames, whatever the keys of
  each frame, x is still between 0 and GAME_WIDTH - width.
\<close>

theorem player_x_stays_in_bounds:
  assumes "width (player s) \<le> 750"
    and "0 \<le> x (player s)" and "x (player s) \<le> GAME_WIDTH - width (player s)"
  shows "0 \<le> x (player (frames kss s)) \<and>
         x (player (frames kss s)) \<le> GAME_WIDTH - width (player (frames kss s)) \<and>
         width (player (frames kss s)) = width (player s)"
  using assms
proof (induction kss arbitrary: s)
  case Nil
  then show ?case by simp
next
  case (Cons ks kss)
  have w: "width (player (update ks s)) = width (player s)"
    by (simp add: update_width)
  have b: "0 \<le> x (player (update ks s)) \<and>
           x (player (update ks s)) \<le> GAME_WIDTH - width (player (update ks s))"
    using Cons.prems by (rule update_x_bounds)
  show ?case
    using Cons.IH [of "update ks s"] Cons.prems(1) w b by simp
qed

theorem player_x_stays_in_bounds_witness:
  "width (player (playerAt 758 500)) \<le> 750 \<and> 0 \<le> x (player (playerAt 758 500)) \<and>
   x (player (playerAt 758 500)) \<le> GAME_WIDTH - width (player (playerAt 758 500)) \<and>
   x (player (frames [rightOnly, rightOnly] (playerAt 758 500))) = 760 \<and>
   0 \<le> x (player (frames [rightOnly, rightOnly] (playerAt 758 500))) \<and>
   x (player (frames [rightOnly, rightOnly] (playerAt 758 500))) \<le>
     GAME_WIDTH - width (player (frames [rightOnly, rightOnly] (playerAt 758 500)))"
proof -
  have w: "width (player (playerAt 758 500)) \<le> 750"
    by (simp add: level_defs)
  have l: "0 \<le> x (player (playerAt 758 500))"
    by (simp add: level_defs)
  have u: "x (player (playerAt 758 500)) \<le> GAME_WIDTH - width (player (playerAt 758 500))"
    by (simp add: level_defs)
  have v: "x (player (frames [rightOnly, rightOnly] (playerAt 758 500))) = 760"
    by code_simp
  show ?thesis
    using player_x_stays_in_bounds [OF w l u, of "[rightOnly, rightOnly]"] w l u v
    by simp
qed

section \<open>Reaching the goal\<close>

text \<open>
  C7. In a running frame, when the player as the goal test finds it (after the physics
  and the hazard loop of that frame) overlaps the goal rectangle (740, 480, 40, 80), the
  frame ends with \<open>complete\<close> true. And \<open>complete\<close> never goes back: once it is true it
  is true after any further sequence of frames, whatever their keys; in fact nothing
  changes any more.
\<close>

theorem goal_completes_and_stays_complete:
  "(gameRunning s \<and> rectIntersect (atGoalTest ks s) goal \<longrightarrow>
      complete (player (update ks s)) \<and> complete (player (frames kss (update ks s)))) \<and>
   (complete (player s) \<longrightarrow>
      complete (player (frames kss s)) \<and> frames kss s = s) \<and>
   x goal = 740 \<and> y goal = 480 \<and> width goal = 40 \<and> height goal = 80"
proof -
  have one: "complete (player (update ks s))"
    if "gameRunning s" "rectIntersect (atGoalTest ks s) goal"
  proof (cases "complete (player s)")
    case True
    then show ?thesis by (simp add: update_def)
  next
    case False
    with that show ?thesis by (simp add: update_player)
  qed
  have stay: "complete (player (frames kss t)) \<and> frames kss t = t" if "complete (player t)" for t
    using that by (simp add: frames_complete)
  have g: "x goal = 740 \<and> y goal = 480 \<and> width goal = 40 \<and> height goal = 80"
    by (simp add: goal_def)
  from one stay g show ?thesis by blast
qed

theorem goal_completes_and_stays_complete_witness:
  "gameRunning (playerAt 740 500) \<and> \<not> complete (player (playerAt 740 500)) \<and>
   rectIntersect (atGoalTest noKeys (playerAt 740 500)) goal \<and>
   complete (player (update noKeys (playerAt 740 500))) \<and>
   complete (player (frames [leftAndRight, rightOnly, noKeys] (update noKeys (playerAt 740 500)))) \<and>
   x (player (frames [leftAndRight, rightOnly, noKeys] (update noKeys (playerAt 740 500)))) = 740"
proof -
  have r: "gameRunning (playerAt 740 500)"
    by (simp add: level_defs)
  have c: "\<not> complete (player (playerAt 740 500))"
    by (simp add: level_defs)
  have i: "rectIntersect (atGoalTest noKeys (playerAt 740 500)) goal"
    by code_simp
  have v: "x (player (update noKeys (playerAt 740 500))) = 740"
    by code_simp
  have a: "complete (player (update noKeys (playerAt 740 500))) \<and>
      complete (player (frames [leftAndRight, rightOnly, noKeys] (update noKeys (playerAt 740 500))))"
    using goal_completes_and_stays_complete
      [of "playerAt 740 500" noKeys "[leftAndRight, rightOnly, noKeys]"] r i
    by blast
  have b: "frames [leftAndRight, rightOnly, noKeys] (update noKeys (playerAt 740 500)) =
      update noKeys (playerAt 740 500)"
    using goal_completes_and_stays_complete
      [of "update noKeys (playerAt 740 500)" noKeys "[leftAndRight, rightOnly, noKeys]"] a
    by blast
  from r c i a b v show ?thesis by simp
qed

section \<open>A reset and the goal exclude each other\<close>

text \<open>
  C10. For a player no wider than 690 (the player of the script is 40 wide): a frame in
  which \<open>resetPlayer\<close> ran (it started a flash timer) was a running frame of an unfinished
  level, the goal test of that frame found the player at (50, 500), which does not overlap
  the goal, so \<open>completeLevel\<close> did not run in that frame and \<open>complete\<close> is false at its
  end.
\<close>

theorem reset_excludes_completion:
  assumes "\<not> complete (player s)" and "width (player s) \<le> 690"
    and "FlashInterval 6 100 \<in> set (startedBy ks s)"
  shows "gameRunning s \<and>
         x (atGoalTest ks s) = 50 \<and> y (atGoalTest ks s) = 500 \<and>
         \<not> rectIntersect (atGoalTest ks s) goal \<and>
         \<not> complete (player (update ks s)) \<and>
         ShowFormTimeout 300 \<notin> set (startedBy ks s)"
proof -
  have run: "gameRunning s"
  proof (rule ccontr)
    assume "\<not> gameRunning s"
    then have "startedBy ks s = []"
      by (simp add: startedBy_def update_def)
    with assms(3) show False by simp
  qed
  obtain k where k: "startedBy ks s =
           replicate k (FlashInterval 6 100) @
           (if rectIntersect (atGoalTest ks s) goal then [ShowFormTimeout 300] else [])"
      "(0 < k) = hazardHit (physics ks (player s)) (hazards s)"
    using update_timers [OF run assms(1), of ks] by blast
  have "0 < k"
    using assms(3) k(1) by (cases k) (auto split: if_splits)
  with k(2) have hit: "hazardHit (physics ks (player s)) (hazards s)"
    by simp
  have at: "atGoalTest ks s = spawned (physics ks (player s))"
    using hit by (simp add: atGoalTest_eq)
  have pos: "x (atGoalTest ks s) = 50 \<and> y (atGoalTest ks s) = 500"
    by (simp add: at spawned_def)
  have w: "width (atGoalTest ks s) \<le> 690"
    using assms(2) by (simp add: atGoalTest_width)
  have miss: "\<not> rectIntersect (atGoalTest ks s) goal"
    using pos w by (simp add: rectIntersect_def goal_def)
  have nc: "\<not> complete (player (update ks s))"
    using run assms(1) miss
    by (simp add: update_player at spawned_def physics_complete)
  have nf: "ShowFormTimeout 300 \<notin> set (startedBy ks s)"
    using miss by (simp add: k(1))
  from run pos miss nc nf show ?thesis by simp
qed

theorem reset_excludes_completion_witness:
  "\<not> complete (player (playerAt 400 500)) \<and> width (player (playerAt 400 500)) \<le> 690 \<and>
   startedBy leftAndRight (playerAt 400 500) = [FlashInterval 6 100] \<and>
   x (atGoalTest leftAndRight (playerAt 400 500)) = 50 \<and>
   y (atGoalTest leftAndRight (playerAt 400 500)) = 500 \<and>
   \<not> rectIntersect (atGoalTest leftAndRight (playerAt 400 500)) goal \<and>
   \<not> complete (player (update leftAndRight (playerAt 400 500)))"
proof -
  have c: "\<not> complete (player (playerAt 400 500))"
    by (simp add: level_defs)
  have w: "width (player (playerAt 400 500)) \<le> 690"
    by (simp add: level_defs)
  have t: "startedBy leftAndRight (playerAt 400 500) = [FlashInterval 6 100]"
    by code_simp
  have f: "FlashInterval 6 100 \<in> set (startedBy leftAndRight (playerAt 400 500))"
    by (simp add: t)
  show ?thesis
    using reset_excludes_completion [OF c w f] c w t by simp
qed

section \<open>Oscillating hazards and their range\<close>




section \<open>One descent of an oscillating hazard\<close>

text \<open>
  C9, in the form that holds. Take a hazard of a running game with a descriptor that fits
  its range (\<open>rangeTop + height \<le> rangeBottom\<close>), standing at \<open>y = rangeTop\<close> with a
  positive normal speed \<open>d\<close> against which the rounding slack is small
  (\<open>roundingSlack \<le> d\<close>), all numbers far from overflow. Then there is a frame \<open>n \<ge> 1\<close>
  such that: in each of the first \<open>n\<close> frames the hazard moves down by \<open>d\<close> as doubles add
  (the new \<open>y\<close> is \<open>numAdd y d\<close>, it is larger than the old one and within the slack of
  \<open>y + d\<close>) and keeps its speed, its lower edge as the script computes it staying above
  \<open>rangeBottom\<close> before frame \<open>n\<close>; frame \<open>n\<close> brings that lower edge to \<open>rangeBottom\<close> or
  past it and flips the speed to \<open>- d\<close>; frame \<open>n + 1\<close> moves the hazard up; and all along
  \<open>y\<close> is at least \<open>rangeTop - d\<close> and \<open>y + height\<close> at most \<open>rangeBottom + d\<close>, up to the
  slack. These are the positions of the hazard in the game for as long as the player has
  not completed the level: after \<open>k\<close> such frames of \<open>update\<close>, whatever the keys, the
  hazard is where \<open>k\<close> moves have put it.
\<close>

theorem oscillating_hazard_descends_then_turns:
  assumes "dy hz = Some d" "rangeTop hz = Some t" "rangeBottom hz = Some b"
    and "y hz = t" and "minNormal \<le> d" and "t + height hz \<le> b"
    and "roundingSlack hz \<le> d"
    and "\<bar>t\<bar> + \<bar>b\<bar> + \<bar>height hz\<bar> + \<bar>d\<bar> \<le> 2 ^ 1000"
    and "gameRunning s" and "i < length (hazards s)" and "hazards s ! i = hz"
  shows "(\<exists>n\<ge>1.
     (\<forall>k<n. dy (ticks k hz) = Some d \<and>
            y (ticks (Suc k) hz) = numAdd (y (ticks k hz)) d \<and>
            y (ticks k hz) < y (ticks (Suc k) hz) \<and>
            \<bar>y (ticks (Suc k) hz) - (y (ticks k hz) + d)\<bar> \<le> roundingSlack hz \<and>
            (0 < k \<longrightarrow> numAdd (y (ticks k hz)) (height hz) < b)) \<and>
     b \<le> numAdd (y (ticks n hz)) (height hz) \<and>
     dy (ticks n hz) = Some (- d) \<and>
     y (ticks (Suc n) hz) = numAdd (y (ticks n hz)) (- d) \<and>
     y (ticks (Suc n) hz) < y (ticks n hz) \<and>
     (\<forall>k\<le>Suc n. t - d - roundingSlack hz \<le> y (ticks k hz) \<and>
                y (ticks k hz) + height (ticks k hz) \<le> b + d + roundingSlack hz)) \<and>
   (\<forall>k\<le>length kss. (\<forall>j<k. \<not> complete (player (frames (take j kss) s))) \<longrightarrow>
                hazards (frames (take k kss) s) ! i = ticks k hz)"
proof -
  define h where "h = height hz"
  define M where "M = \<bar>t\<bar> + \<bar>b\<bar> + \<bar>h\<bar> + d"
  define u where "u = M / 2 ^ 50"
  define v where "v = u / 2"
  define z where "z = (\<lambda>k. glide d k t)"
  have dpos: "0 < d"
    using assms(5) minNormal_pos by linarith
  have slack: "roundingSlack hz = u"
    using assms(1-3) dpos by (simp add: roundingSlack_def oscillation_def u_def M_def h_def)
  have ud: "u \<le> d"
    using assms(7) slack by simp
  have M0: "0 \<le> M" and dM: "d \<le> M"
    using dpos by (simp_all add: M_def)
  have absM: "\<bar>t\<bar> + \<bar>b\<bar> + \<bar>h\<bar> + d = M"
    by (simp add: M_def)
  have uM: "u \<le> M"
  proof -
    have "M / 2 ^ 50 \<le> M / 1"
      using M0 by (intro divide_left_mono) simp_all
    then show ?thesis by (simp add: u_def)
  qed
  have u0: "0 \<le> u"
    using M0 by (simp add: u_def)
  have v2: "2 * v = u" and v0: "0 \<le> v"
    using u0 by (simp_all add: v_def)
  have mn: "minNormal \<le> 4 * M"
    using assms(5) dM M0 by linarith
  have close: "\<bar>nearestDouble w - w\<bar> \<le> v" if "\<bar>w\<bar> \<le> 4 * M" for w
    using nearestDouble_close [OF that mn] by (simp add: v_def u_def)
  have fit: "t + h \<le> b"
    using assms(6) by (simp add: h_def)
  have z0: "z 0 = t"
    by (simp add: z_def)
  have zS: "z (Suc k) = numAdd (z k) d" for k
    by (simp add: z_def)
  have move: "z k + d - v \<le> z (Suc k) \<and> z (Suc k) \<le> z k + d + v"
    if "t \<le> z k" "z k + h \<le> b + v" for k
  proof -
    have "\<bar>z k + d\<bar> \<le> 4 * M"
      using that absM v2 uM dpos v0 by arith
    then have "\<bar>nearestDouble (z k + d) - (z k + d)\<bar> \<le> v"
      by (rule close)
    then show ?thesis
      by (simp add: zS numAdd_def abs_le_iff)
  qed
  have edge: "\<bar>numAdd w h - (w + h)\<bar> \<le> v" if "t \<le> w" "w + h \<le> b + d + u" for w
  proof -
    have "\<bar>w + h\<bar> \<le> 4 * M"
      using that absM uM dpos by arith
    then have "\<bar>nearestDouble (w + h) - (w + h)\<bar> \<le> v"
      by (rule close)
    then show ?thesis
      by (simp add: numAdd_def)
  qed
  have descent: "t + of_nat k * (d / 2) \<le> z k \<and> z k + h \<le> b + v"
    if "\<forall>j. 1 \<le> j \<and> j \<le> k \<longrightarrow> numAdd (z j) h < b" for k
    using that
  proof (induction k)
    case 0
    show ?case using fit v0 by (simp add: z0)
  next
    case (Suc k)
    have ih: "t + of_nat k * (d / 2) \<le> z k \<and> z k + h \<le> b + v"
      using Suc.prems by (intro Suc.IH) simp
    have kd: "0 \<le> of_nat k * (d / 2)"
      using dpos by simp
    have tz: "t \<le> z k"
      using ih kd by linarith
    have mv: "z k + d - v \<le> z (Suc k) \<and> z (Suc k) \<le> z k + d + v"
      using tz ih by (intro move) simp_all
    have lo: "t + of_nat (Suc k) * (d / 2) \<le> z (Suc k)"
    proof -
      have "of_nat (Suc k) * (d / 2) = of_nat k * (d / 2) + d / 2"
        by (simp add: algebra_simps)
      then show ?thesis
        using ih mv v2 ud by linarith
    qed
    have tz1: "t \<le> z (Suc k)"
      using mv tz v2 ud dpos by linarith
    have "z (Suc k) + h \<le> b + d + u"
      using mv ih v2 by linarith
    then have e: "\<bar>numAdd (z (Suc k)) h - (z (Suc k) + h)\<bar> \<le> v"
      using tz1 by (intro edge) simp_all
    have "numAdd (z (Suc k)) h < b"
      using Suc.prems by simp
    with e have "z (Suc k) + h \<le> b + v"
      by linarith
    with lo show ?case by simp
  qed
  have reach: "\<exists>k. 1 \<le> k \<and> b \<le> numAdd (z k) h"
  proof (rule ccontr)
    assume "\<not> (\<exists>k. 1 \<le> k \<and> b \<le> numAdd (z k) h)"
    then have never: "\<forall>j. 1 \<le> j \<and> j \<le> k \<longrightarrow> numAdd (z j) h < b" for k
      by (meson not_le)
    obtain m where m: "b + v - h - t < of_nat m * (d / 2)"
      using ex_less_of_nat_mult [of "d / 2" "b + v - h - t"] dpos by auto
    have "t + of_nat m * (d / 2) \<le> z m \<and> z m + h \<le> b + v"
      using never [of m] by (rule descent)
    with m show False by linarith
  qed
  define n where "n = (LEAST k. 1 \<le> k \<and> b \<le> numAdd (z k) h)"
  have n1: "1 \<le> n" and nb: "b \<le> numAdd (z n) h"
    using LeastI_ex [OF reach] by (simp_all add: n_def)
  have before: "numAdd (z k) h < b" if "1 \<le> k" "k < n" for k
    using not_less_Least [of k "\<lambda>k. 1 \<le> k \<and> b \<le> numAdd (z k) h"] that
    by (auto simp: n_def)
  have inside: "t + of_nat k * (d / 2) \<le> z k \<and> z k + h \<le> b + v" if "k < n" for k
  proof (rule descent)
    show "\<forall>j. 1 \<le> j \<and> j \<le> k \<longrightarrow> numAdd (z j) h < b"
      using before that by auto
  qed
  have above: "t \<le> z k" if "k < n" for k
  proof -
    have "0 \<le> of_nat k * (d / 2)"
      using dpos by simp
    with inside [OF that] show ?thesis by linarith
  qed
  have mvk: "z k + d - v \<le> z (Suc k) \<and> z (Suc k) \<le> z k + d + v" if "k < n" for k
    using above [OF that] inside [OF that] by (intro move) simp_all
  have rises: "z k < z (Suc k)" if "k < n" for k
    using mvk [OF that] v2 ud dpos by linarith
  have low: "ticks k hz = hz\<lparr>y := z k\<rparr>" if "k < n" for k
    using that
  proof (induction k)
    case 0
    show ?case using assms(4) by (simp add: z0)
  next
    case (Suc k)
    have prev: "ticks k hz = hz\<lparr>y := z k\<rparr>"
      using Suc by simp
    have kn: "k < n"
      using Suc.prems by simp
    have notop: "\<not> z (Suc k) \<le> t"
      using rises [OF kn] above [OF kn] by linarith
    have nobot: "\<not> b \<le> numAdd (z (Suc k)) h"
      using before [of "Suc k"] Suc.prems by simp
    have "moveHazard (hz\<lparr>y := z k\<rparr>) = hz\<lparr>y := z (Suc k)\<rparr>"
      using assms(1-3) dpos notop nobot
      by (simp add: moveHazard_def Let_def zS [symmetric] h_def)
    with prev show ?case by simp
  qed
  obtain n' where n': "n = Suc n'"
    using n1 by (cases n) auto
  have n'n: "n' < n"
    by (simp add: n')
  have turn: "ticks n hz = hz\<lparr>y := z n, dy := Some (- d)\<rparr>"
  proof -
    have "ticks n hz = moveHazard (hz\<lparr>y := z n'\<rparr>)"
      using low [OF n'n] by (simp add: n')
    also have "\<dots> = hz\<lparr>y := z n, dy := Some (- d)\<rparr>"
      using assms(1-3) dpos nb
      by (simp add: moveHazard_def Let_def zS [symmetric] h_def n')
    finally show ?thesis .
  qed
  have zn: "t \<le> z n \<and> z n + h \<le> b + d + u"
    using mvk [OF n'n] inside [OF n'n] above [OF n'n] v2 ud dpos unfolding n' by linarith
  have rise: "y (ticks (Suc n) hz) = numAdd (z n) (- d)"
    using dpos by (simp add: turn moveHazard_def Let_def)
  have hrise: "height (ticks (Suc n) hz) = h"
    using dpos by (simp add: turn moveHazard_def Let_def h_def)
  have up: "z n - d - v \<le> numAdd (z n) (- d) \<and> numAdd (z n) (- d) \<le> z n - d + v"
  proof -
    have "\<bar>z n + - d\<bar> \<le> 4 * M"
      using zn absM uM dpos by arith
    then have "\<bar>nearestDouble (z n + - d) - (z n + - d)\<bar> \<le> v"
      by (rule close)
    then show ?thesis
      by (simp add: numAdd_def abs_le_iff)
  qed
  have c1: "\<forall>k<n. dy (ticks k hz) = Some d \<and>
            y (ticks (Suc k) hz) = numAdd (y (ticks k hz)) d \<and>
            y (ticks k hz) < y (ticks (Suc k) hz) \<and>
            \<bar>y (ticks (Suc k) hz) - (y (ticks k hz) + d)\<bar> \<le> roundingSlack hz \<and>
            (0 < k \<longrightarrow> numAdd (y (ticks k hz)) (height hz) < b)"
  proof (intro allI impI)
    fix k assume kn: "k < n"
    have yk: "y (ticks k hz) = z k" and dk: "dy (ticks k hz) = Some d"
      using low [OF kn] assms(1) by simp_all
    have yS: "y (ticks (Suc k) hz) = z (Suc k)"
    proof (cases "Suc k < n")
      case True
      then show ?thesis using low [of "Suc k"] by simp
    next
      case False
      with kn have "Suc k = n" by simp
      then show ?thesis using turn by simp
    qed
    have err: "\<bar>z (Suc k) - (z k + d)\<bar> \<le> u"
      using mvk [OF kn] v2 v0 by (simp add: abs_le_iff)
    have bef: "0 < k \<longrightarrow> numAdd (z k) h < b"
      using before [of k] kn by simp
    show "dy (ticks k hz) = Some d \<and>
            y (ticks (Suc k) hz) = numAdd (y (ticks k hz)) d \<and>
            y (ticks k hz) < y (ticks (Suc k) hz) \<and>
            \<bar>y (ticks (Suc k) hz) - (y (ticks k hz) + d)\<bar> \<le> roundingSlack hz \<and>
            (0 < k \<longrightarrow> numAdd (y (ticks k hz)) (height hz) < b)"
      unfolding yk yS slack h_def [symmetric]
      using dk zS [of k] rises [OF kn] err bef by simp
  qed
  have c2: "b \<le> numAdd (y (ticks n hz)) (height hz)"
    using nb by (simp add: turn h_def)
  have c3: "dy (ticks n hz) = Some (- d)"
    by (simp add: turn)
  have c4: "y (ticks (Suc n) hz) = numAdd (y (ticks n hz)) (- d)"
    unfolding rise by (simp add: turn)
  have c5: "y (ticks (Suc n) hz) < y (ticks n hz)"
  proof -
    have "numAdd (z n) (- d) < z n"
      using up v2 ud dpos by linarith
    then show ?thesis
      unfolding rise by (simp add: turn)
  qed
  have c6: "\<forall>k\<le>Suc n. t - d - roundingSlack hz \<le> y (ticks k hz) \<and>
                y (ticks k hz) + height (ticks k hz) \<le> b + d + roundingSlack hz"
  proof (intro allI impI)
    fix k assume kle: "k \<le> Suc n"
    consider (lt) "k < n" | (eq) "k = n" | (suc) "k = Suc n"
      using kle by linarith
    then show "t - d - roundingSlack hz \<le> y (ticks k hz) \<and>
                y (ticks k hz) + height (ticks k hz) \<le> b + d + roundingSlack hz"
    proof cases
      case lt
      have "t - d - u \<le> z k \<and> z k + h \<le> b + d + u"
        using above [OF lt] inside [OF lt] v2 v0 dpos u0 by linarith
      then show ?thesis
        unfolding slack by (simp add: low [OF lt] h_def)
    next
      case eq
      have "t - d - u \<le> z n \<and> z n + h \<le> b + d + u"
        using zn dpos u0 by linarith
      then show ?thesis
        unfolding slack eq by (simp add: turn h_def)
    next
      case suc
      have "t - d - u \<le> numAdd (z n) (- d) \<and> numAdd (z n) (- d) + h \<le> b + d + u"
        using up zn v2 v0 dpos u0 ud by linarith
      then show ?thesis
        unfolding slack suc rise hrise .
    qed
  qed
  have c7: "\<forall>k\<le>length kss. (\<forall>j<k. \<not> complete (player (frames (take j kss) s))) \<longrightarrow>
                hazards (frames (take k kss) s) ! i = ticks k hz"
  proof (intro allI impI)
    fix k assume "k \<le> length kss" and "\<forall>j<k. \<not> complete (player (frames (take j kss) s))"
    with assms(9,10) have "hazards (frames (take k kss) s) ! i = ticks k (hazards s ! i)"
      by (intro frames_ticks)
    then show "hazards (frames (take k kss) s) ! i = ticks k hz"
      by (simp only: assms(11))
  qed
  from n1 c1 c2 c3 c4 c5 c6 c7 show ?thesis
    by blast
qed

theorem oscillating_hazard_descends_then_turns_witness:
  "dy (movingHazard\<lparr>y := 480\<rparr>) = Some (5404319552844595 / 4503599627370496) \<and>
   rangeTop (movingHazard\<lparr>y := 480\<rparr>) = Some 480 \<and>
   rangeBottom (movingHazard\<lparr>y := 480\<rparr>) = Some 540 \<and>
   y (movingHazard\<lparr>y := 480\<rparr>) = 480 \<and>
   minNormal \<le> 5404319552844595 / 4503599627370496 \<and>
   480 + height (movingHazard\<lparr>y := 480\<rparr>) \<le> 540 \<and>
   roundingSlack (movingHazard\<lparr>y := 480\<rparr>) \<le> 5404319552844595 / 4503599627370496 \<and>
   gameRunning (levelWith 480) \<and>
   hazards (levelWith 480) ! 1 = movingHazard\<lparr>y := 480\<rparr> \<and>
   (\<exists>n\<ge>1. 540 \<le> numAdd (y (ticks n (movingHazard\<lparr>y := 480\<rparr>))) 50 \<and>
      dy (ticks n (movingHazard\<lparr>y := 480\<rparr>)) = Some (- (5404319552844595 / 4503599627370496)) \<and>
      y (ticks (Suc n) (movingHazard\<lparr>y := 480\<rparr>)) < y (ticks n (movingHazard\<lparr>y := 480\<rparr>))) \<and>
   ticks 8 (movingHazard\<lparr>y := 480\<rparr>) = movingHazard\<lparr>y := 1076641785918259 / 2199023255552\<rparr> \<and>
   ticks 9 (movingHazard\<lparr>y := 480\<rparr>) = movingHazard\<lparr>y := 8634244910599371 / 17592186044416, dy := Some (- (5404319552844595 / 4503599627370496))\<rparr> \<and>
   ticks 10 (movingHazard\<lparr>y := 480\<rparr>) = movingHazard\<lparr>y := 1076641785918259 / 2199023255552, dy := Some (- (5404319552844595 / 4503599627370496))\<rparr> \<and>
   hazards (frames (replicate 10 noKeys) (levelWith 480)) ! 1 =
     movingHazard\<lparr>y := 1076641785918259 / 2199023255552, dy := Some (- (5404319552844595 / 4503599627370496))\<rparr>"
proof -
  let ?hz = "movingHazard\<lparr>y := 480\<rparr>" and ?s = "levelWith 480"
  have h1: "dy ?hz = Some (5404319552844595 / 4503599627370496)"
    by (simp add: movingHazard_def)
  have h2: "rangeTop ?hz = Some 480"
    by (simp add: movingHazard_def)
  have h3: "rangeBottom ?hz = Some 540"
    by (simp add: movingHazard_def)
  have h4: "y ?hz = 480"
    by simp
  have "(1::rat) \<le> 5404319552844595 / 4503599627370496"
    by simp
  then have h5: "minNormal \<le> 5404319552844595 / 4503599627370496"
    using minNormal_le_one by linarith
  have h6: "480 + height ?hz \<le> 540"
    by (simp add: movingHazard_def)
  have h7: "roundingSlack ?hz \<le> 5404319552844595 / 4503599627370496"
    by (simp add: roundingSlack_def oscillation_def movingHazard_def)
  have h8: "\<bar>480\<bar> + \<bar>540\<bar> + \<bar>height ?hz\<bar> + \<bar>5404319552844595 / 4503599627370496\<bar> \<le> (2 ^ 1000 :: rat)"
    by (simp add: movingHazard_def)
  have h9: "gameRunning ?s"
    by (simp add: level_defs)
  have h10: "(1::nat) < length (hazards ?s)"
    by (simp add: levelWith_def)
  have h11: "hazards ?s ! 1 = ?hz"
    by (simp add: levelWith_def)
  have m1: "moveHazard (movingHazard\<lparr>y := 480\<rparr>) = movingHazard\<lparr>y := 8465359924572979 / 17592186044416\<rparr>"
    by code_simp
  have m2: "moveHazard (movingHazard\<lparr>y := 8465359924572979 / 17592186044416\<rparr>) = movingHazard\<lparr>y := 4243235273913139 / 8796093022208\<rparr>"
    by code_simp
  have m3: "moveHazard (movingHazard\<lparr>y := 4243235273913139 / 8796093022208\<rparr>) = movingHazard\<lparr>y := 8507581171079577 / 17592186044416\<rparr>"
    by code_simp
  have m4: "moveHazard (movingHazard\<lparr>y := 8507581171079577 / 17592186044416\<rparr>) = movingHazard\<lparr>y := 2132172948583219 / 4398046511104\<rparr>"
    by code_simp
  have m5: "moveHazard (movingHazard\<lparr>y := 2132172948583219 / 4398046511104\<rparr>) = movingHazard\<lparr>y := 8549802417586175 / 17592186044416\<rparr>"
    by code_simp
  have m6: "moveHazard (movingHazard\<lparr>y := 8549802417586175 / 17592186044416\<rparr>) = movingHazard\<lparr>y := 4285456520419737 / 8796093022208\<rparr>"
    by code_simp
  have m7: "moveHazard (movingHazard\<lparr>y := 4285456520419737 / 8796093022208\<rparr>) = movingHazard\<lparr>y := 8592023664092773 / 17592186044416\<rparr>"
    by code_simp
  have m8: "moveHazard (movingHazard\<lparr>y := 8592023664092773 / 17592186044416\<rparr>) = movingHazard\<lparr>y := 1076641785918259 / 2199023255552\<rparr>"
    by code_simp
  have m9: "moveHazard (movingHazard\<lparr>y := 1076641785918259 / 2199023255552\<rparr>) =
      movingHazard\<lparr>y := 8634244910599371 / 17592186044416, dy := Some (- (5404319552844595 / 4503599627370496))\<rparr>"
    by code_simp
  have m10: "moveHazard (movingHazard\<lparr>y := 8634244910599371 / 17592186044416, dy := Some (- (5404319552844595 / 4503599627370496))\<rparr>) =
      movingHazard\<lparr>y := 1076641785918259 / 2199023255552, dy := Some (- (5404319552844595 / 4503599627370496))\<rparr>"
    by code_simp
  have t8: "ticks 8 ?hz = movingHazard\<lparr>y := 1076641785918259 / 2199023255552\<rparr>"
    by (simp add: numeral_eq_Suc m1 m2 m3 m4 m5 m6 m7 m8)
  have t9: "ticks 9 ?hz = movingHazard\<lparr>y := 8634244910599371 / 17592186044416, dy := Some (- (5404319552844595 / 4503599627370496))\<rparr>"
    by (simp add: numeral_eq_Suc m1 m2 m3 m4 m5 m6 m7 m8 m9)
  have t10: "ticks 10 ?hz = movingHazard\<lparr>y := 1076641785918259 / 2199023255552, dy := Some (- (5404319552844595 / 4503599627370496))\<rparr>"
    by (simp add: numeral_eq_Suc m1 m2 m3 m4 m5 m6 m7 m8 m9 m10)
  have idle: "\<forall>j<10. \<not> complete (player (frames (take j (replicate 10 noKeys)) ?s))"
  proof (intro allI impI)
    fix j :: nat assume "j < 10"
    then have tk: "take j (replicate 10 noKeys) = replicate j noKeys"
      by simp
    have "\<not> complete (player (frames (replicate j noKeys) ?s))"
      by (intro idle_frames)
        (simp_all add: level_defs)
    then show "\<not> complete (player (frames (take j (replicate 10 noKeys)) ?s))"
      unfolding tk .
  qed
  note inst = oscillating_hazard_descends_then_turns
    [OF h1 h2 h3 h4 h5 h6 h7 h8 h9 h10 h11, of "replicate 10 noKeys"]
  have ex: "\<exists>n\<ge>1. 540 \<le> numAdd (y (ticks n ?hz)) 50 \<and>
      dy (ticks n ?hz) = Some (- (5404319552844595 / 4503599627370496)) \<and>
      y (ticks (Suc n) ?hz) < y (ticks n ?hz)"
  proof -
    have hh: "height ?hz = 50"
      by (simp add: movingHazard_def)
    from inst obtain n where "1 \<le> n"
      "540 \<le> numAdd (y (ticks n ?hz)) (height ?hz)"
      "dy (ticks n ?hz) = Some (- (5404319552844595 / 4503599627370496))"
      "y (ticks (Suc n) ?hz) < y (ticks n ?hz)"
      by blast
    then show ?thesis
      unfolding hh by blast
  qed
  have link: "hazards (frames (take 10 (replicate 10 noKeys)) ?s) ! 1 = ticks 10 ?hz"
    using inst idle by simp
  have fr: "hazards (frames (replicate 10 noKeys) ?s) ! 1 =
      movingHazard\<lparr>y := 1076641785918259 / 2199023255552, dy := Some (- (5404319552844595 / 4503599627370496))\<rparr>"
    using link unfolding t10 by simp
  from h1 h2 h3 h4 h5 h6 h7 h9 h11 ex t8 t9 t10 fr show ?thesis
    by blast
qed

text \<open>
  C9 with exact steps and an exact bound fails on doubles. The hazard \<open>tightHazard\<close> stands
  at the top of a range that it fills exactly; one frame moves it by \<open>13 / 2^52\<close> more than
  its speed, and its lower edge ends more than one step past \<open>rangeBottom\<close>.
\<close>

theorem oscillating_hazard_overshoot_counterexample:
  "gameRunning tightLevel \<and> \<not> complete (player tightLevel) \<and>
   hazards tightLevel = [tightHazard] \<and>
   rangeTop tightHazard = Some (y tightHazard) \<and>
   rangeBottom tightHazard = Some (y tightHazard + height tightHazard) \<and>
   dy tightHazard = Some (5404319552844595 / 4503599627370496) \<and>
   y (hd (hazards (update noKeys tightLevel))) = 8394991180395315 / 70368744177664 \<and>
   y (hd (hazards (update noKeys tightLevel))) - y tightHazard = 5404319552844595 / 4503599627370496 + 13 / 2 ^ 52 \<and>
   4507118064579379 / 35184372088832 + 5404319552844595 / 4503599627370496
     < y (hd (hazards (update noKeys tightLevel))) + height (hd (hazards (update noKeys tightLevel))) \<and>
   dy (hd (hazards (update noKeys tightLevel))) = Some (- (5404319552844595 / 4503599627370496))"
proof -
  have a: "gameRunning tightLevel \<and> \<not> complete (player tightLevel) \<and>
      hazards tightLevel = [tightHazard]"
    by (simp add: tightLevel_def startGame_def initial_def player0_def)
  have b: "rangeTop tightHazard = Some (y tightHazard) \<and>
      rangeBottom tightHazard = Some (y tightHazard + height tightHazard) \<and>
      dy tightHazard = Some (5404319552844595 / 4503599627370496)"
    by (simp add: tightHazard_def)
  have m: "moveHazard tightHazard =
      tightHazard\<lparr>y := 8394991180395315 / 70368744177664, dy := Some (- (5404319552844595 / 4503599627370496))\<rparr>"
    by code_simp
  have u: "hazards (update noKeys tightLevel) = [moveHazard tightHazard]"
    using a by (simp add: update_hazards)
  have c: "y (hd (hazards (update noKeys tightLevel))) = 8394991180395315 / 70368744177664 \<and>
      y (hd (hazards (update noKeys tightLevel))) - y tightHazard = 5404319552844595 / 4503599627370496 + 13 / 2 ^ 52 \<and>
      4507118064579379 / 35184372088832 + 5404319552844595 / 4503599627370496
        < y (hd (hazards (update noKeys tightLevel))) +
          height (hd (hazards (update noKeys tightLevel))) \<and>
      dy (hd (hazards (update noKeys tightLevel))) = Some (- (5404319552844595 / 4503599627370496))"
    unfolding u m by (simp add: tightHazard_def)
  from a b c show ?thesis
    by blast
qed

end
